theory Spec2Isabelle
  imports Main
begin

section \<open>The operating system as the logger sees it\<close>

text \<open>
  The package \<^verbatim>\<open>logger\<close> talks to the file system through \<^verbatim>\<open>os.Stat\<close>,
  \<^verbatim>\<open>os.Create\<close>, \<^verbatim>\<open>os.OpenFile\<close>, \<^verbatim>\<open>os.Open\<close>, \<^verbatim>\<open>os.Rename\<close>,
  \<^verbatim>\<open>os.Remove\<close> and the methods of \<^verbatim>\<open>*os.File\<close>; to the standard streams
  through \<^verbatim>\<open>io.Writer\<close>; and to its observer through \<^verbatim>\<open>emitLogEvent\<close>.
  The environment is a record holding the files by path, the bytes that reached each
  standard stream, the notifications the observers received, and a table of injected
  faults that says which system call fails on which path (a call with no fault fails
  only for the reason the file system itself gives, such as a missing file).
  Locks are not modelled: every operation runs alone.
\<close>

datatype error =
    ErrorString string   \<comment> \<open>\<^verbatim>\<open>errors.New\<close>, \<^verbatim>\<open>fmt.Errorf\<close>\<close>
  | ErrNotExist          \<comment> \<open>the path does not exist\<close>
  | ErrInvalid           \<comment> \<open>a method called on a nil \<^verbatim>\<open>*os.File\<close>\<close>
  | EOF                  \<comment> \<open>\<^verbatim>\<open>io.EOF\<close>\<close>
  | Errno nat            \<comment> \<open>any other error of the operating system\<close>

datatype panic =
    MakeSliceLenOutOfRange   \<comment> \<open>\<^verbatim>\<open>make([]byte, n)\<close> with n negative or above the allocation limit\<close>
  | IndexOutOfRange          \<comment> \<open>indexing a slice outside its length\<close>

datatype syscall =
  SysStat | SysCreate | SysOpenFile | SysOpen | SysFstat | SysReadAt | SysWrite | SysRemove | SysRename

datatype stdstream = Stdout | Stderr

record env =
  files :: "string \<rightharpoonup> string"
  fault :: "syscall \<Rightarrow> string \<Rightarrow> error option"
  streams :: "stdstream \<Rightarrow> string"
  stream_fault :: "stdstream \<Rightarrow> (nat \<times> error) option"
  events :: "(nat \<times> string) list"

text \<open>Go's \<^verbatim>\<open>int\<close> and \<^verbatim>\<open>int64\<close> (64-bit targets): integers with the
  wrap-around of two's complement written out.\<close>

definition int64 :: "int \<Rightarrow> int" where
  "int64 x = (x + 2 ^ 63) mod 2 ^ 64 - 2 ^ 63"

definition in_int64 :: "int \<Rightarrow> bool" where
  "in_int64 x = (- (2 ^ 63) \<le> x \<and> x < 2 ^ 63)"

definition MaxInt64 :: int where
  "MaxInt64 = 2 ^ 63 - 1"

text \<open>The largest allocation the runtime accepts (\<^verbatim>\<open>maxAlloc\<close>, 48 address bits on
  64-bit targets): \<^verbatim>\<open>make([]byte, n)\<close> panics outside \<open>0..maxAlloc\<close>.\<close>

definition maxAlloc :: int where
  "maxAlloc = 2 ^ 48"

definition makeslice_ok :: "int \<Rightarrow> bool" where
  "makeslice_ok n = (0 \<le> n \<and> n \<le> maxAlloc)"

subsection \<open>\<^verbatim>\<open>fmt.Sprintf("%s.%d", name, i)\<close>\<close>

fun digits :: "nat \<Rightarrow> string" where
  "digits n = (if n < 10 then [''0123456789'' ! n] else digits (n div 10) @ [''0123456789'' ! (n mod 10)])"

declare digits.simps [simp del]

definition Itoa :: "int \<Rightarrow> string" where
  "Itoa i = (if i < 0 then CHR ''-'' # digits (nat (- i)) else digits (nat i))"

definition backup_name :: "string \<Rightarrow> int \<Rightarrow> string" where
  "backup_name nm i = nm @ ''.'' @ Itoa i"

subsection \<open>System calls\<close>

definition os_Stat :: "env \<Rightarrow> string \<Rightarrow> error + int" where
  "os_Stat w path =
     (case fault w SysStat path of
        Some e \<Rightarrow> Inl e
      | None \<Rightarrow> (case files w path of None \<Rightarrow> Inl ErrNotExist | Some c \<Rightarrow> Inr (int (length c))))"

text \<open>\<^verbatim>\<open>os.Create\<close>: open for reading and writing, create if missing, truncate.
  The handle of an open file is the path it was opened under.\<close>

definition os_Create :: "env \<Rightarrow> string \<Rightarrow> (string option \<times> error option) \<times> env" where
  "os_Create w path =
     (case fault w SysCreate path of
        Some e \<Rightarrow> ((None, Some e), w)
      | None \<Rightarrow> ((Some path, None), w\<lparr>files := (files w)(path \<mapsto> [])\<rparr>))"

text \<open>\<^verbatim>\<open>os.OpenFile(name, os.O_RDWR|os.O_APPEND, 0666)\<close>: the file must exist.\<close>

definition os_OpenFile :: "env \<Rightarrow> string \<Rightarrow> string option \<times> error option" where
  "os_OpenFile w path =
     (case fault w SysOpenFile path of
        Some e \<Rightarrow> (None, Some e)
      | None \<Rightarrow> (case files w path of None \<Rightarrow> (None, Some ErrNotExist) | Some c \<Rightarrow> (Some path, None)))"

text \<open>\<^verbatim>\<open>os.Open\<close>: open for reading.\<close>

definition os_Open :: "env \<Rightarrow> string \<Rightarrow> error + string" where
  "os_Open w path =
     (case fault w SysOpen path of
        Some e \<Rightarrow> Inl e
      | None \<Rightarrow> (case files w path of None \<Rightarrow> Inl ErrNotExist | Some c \<Rightarrow> Inr path))"

text \<open>\<^verbatim>\<open>f.Stat()\<close> on an open file: its size.\<close>

definition File_Stat :: "env \<Rightarrow> string \<Rightarrow> error + int" where
  "File_Stat w f =
     (case fault w SysFstat f of
        Some e \<Rightarrow> Inl e
      | None \<Rightarrow> (case files w f of None \<Rightarrow> Inl ErrNotExist | Some c \<Rightarrow> Inr (int (length c))))"

text \<open>\<^verbatim>\<open>f.ReadAt(b, off)\<close> with \<open>len(b) = n\<close>: the bytes read, and an error when
  fewer than \<open>n\<close> bytes could be read (\<^verbatim>\<open>io.EOF\<close> at the end of the file).\<close>

definition File_ReadAt :: "env \<Rightarrow> string \<Rightarrow> int \<Rightarrow> int \<Rightarrow> string \<times> error option" where
  "File_ReadAt w f n off =
     (case fault w SysReadAt f of
        Some e \<Rightarrow> ([], Some e)
      | None \<Rightarrow>
          if off < 0 then ([], Some (ErrorString ''negative offset''))
          else (case files w f of
                  None \<Rightarrow> ([], Some ErrNotExist)
                | Some c \<Rightarrow>
                    (let d = take (nat n) (drop (nat off) c)
                     in (d, if int (length d) < n then Some EOF else None))))"

text \<open>\<^verbatim>\<open>l.file.Write(p)\<close>: on a nil file \<^verbatim>\<open>ErrInvalid\<close>; otherwise the bytes are
  appended (the handle is the file's only writer, opened either with \<^verbatim>\<open>O_APPEND\<close> or on
  a file just truncated). A failing write persists nothing. A handle whose path has been
  unlinked still accepts writes; they reach no file of the directory.\<close>

definition File_Write :: "string option \<Rightarrow> env \<Rightarrow> string \<Rightarrow> (int \<times> error option) \<times> env" where
  "File_Write h w p =
     (case h of
        None \<Rightarrow> ((0, Some ErrInvalid), w)
      | Some path \<Rightarrow>
          (case fault w SysWrite path of
             Some e \<Rightarrow> ((0, Some e), w)
           | None \<Rightarrow>
               (case files w path of
                  None \<Rightarrow> ((int (length p), None), w)
                | Some c \<Rightarrow> ((int (length p), None), w\<lparr>files := (files w)(path \<mapsto> c @ p)\<rparr>))))"

text \<open>\<^verbatim>\<open>os.Rename\<close> replaces the destination. The logger ignores its result.\<close>

definition os_Rename :: "env \<Rightarrow> string \<Rightarrow> string \<Rightarrow> error option \<times> env" where
  "os_Rename w src dest =
     (case fault w SysRename src of
        Some e \<Rightarrow> (Some e, w)
      | None \<Rightarrow>
          (case files w src of
             None \<Rightarrow> (Some ErrNotExist, w)
           | Some c \<Rightarrow>
               if src = dest then (None, w)
               else (None, w\<lparr>files := ((files w)(dest \<mapsto> c))(src := None)\<rparr>)))"

definition os_Remove :: "env \<Rightarrow> string \<Rightarrow> error option \<times> env" where
  "os_Remove w path =
     (case fault w SysRemove path of
        Some e \<Rightarrow> (Some e, w)
      | None \<Rightarrow>
          (case files w path of
             None \<Rightarrow> (Some ErrNotExist, w)
           | Some c \<Rightarrow> (None, w\<lparr>files := (files w)(path := None)\<rparr>)))"

text \<open>\<^verbatim>\<open>l.writer.Write(p)\<close> on a standard stream: all of \<open>p\<close> is written, or, when
  the stream is faulty, its first \<open>k\<close> bytes and the error is returned.\<close>

definition Writer_Write :: "stdstream \<Rightarrow> env \<Rightarrow> string \<Rightarrow> (int \<times> error option) \<times> env" where
  "Writer_Write s w p =
     (case stream_fault w s of
        None \<Rightarrow> ((int (length p), None), w\<lparr>streams := (streams w)(s := streams w s @ p)\<rparr>)
      | Some (k, e) \<Rightarrow>
          ((int (length (take k p)), Some e), w\<lparr>streams := (streams w)(s := streams w s @ take k p)\<rparr>))"

subsection \<open>The observer\<close>

text \<open>\<^verbatim>\<open>LogEventEmitter\<close>: a listener (known by a number) that records what it is
  told, or the \<^verbatim>\<open>NullLogEventEmitter\<close>, which drops it.\<close>

datatype LogEventEmitter = Listener nat | NullLogEventEmitter

fun emitLogEvent :: "LogEventEmitter \<Rightarrow> string \<Rightarrow> env \<Rightarrow> env" where
  "emitLogEvent (Listener k) d w = w\<lparr>events := events w @ [(k, d)]\<rparr>"
| "emitLogEvent NullLogEventEmitter d w = w"

section \<open>\<^verbatim>\<open>FileLogger\<close> (log_file.go)\<close>

record FileLogger =
  name :: string
  maxSize :: int
  backups :: int
  fileSize :: int
  fileH :: "string option"   \<comment> \<open>the field \<^verbatim>\<open>file\<close>; None is nil\<close>
  logEventEmitter :: LogEventEmitter

text \<open>\<^verbatim>\<open>openFile\<close>: the error is also printed; the message is not part of the model.\<close>

definition openFile :: "FileLogger \<Rightarrow> env \<Rightarrow> bool \<Rightarrow> error option \<times> FileLogger \<times> env" where
  "openFile l w trunc =
     (case os_Stat w (name l) of
        Inr sz \<Rightarrow>
          if trunc then
            (case os_Create w (name l) of ((h, err), w') \<Rightarrow> (err, l\<lparr>fileH := h\<rparr>, w'))
          else
            (case os_OpenFile w (name l) of (h, err) \<Rightarrow> (err, l\<lparr>fileSize := sz, fileH := h\<rparr>, w))
      | Inl e \<Rightarrow>
          (case os_Create w (name l) of ((h, err), w') \<Rightarrow> (err, l\<lparr>fileH := h\<rparr>, w')))"

definition NewFileLogger ::
  "string \<Rightarrow> int \<Rightarrow> int \<Rightarrow> LogEventEmitter \<Rightarrow> env \<Rightarrow> FileLogger \<times> env" where
  "NewFileLogger nm maxSz bk em w =
     (let logger = \<lparr>name = nm, maxSize = maxSz, backups = bk, fileSize = 0, fileH = None,
                     logEventEmitter = em\<rparr>
      in case openFile logger w False of (err, l, w') \<Rightarrow> (l, w'))"

definition Close :: "FileLogger \<Rightarrow> FileLogger" where
  "Close l = l\<lparr>fileH := None\<rparr>"

text \<open>The loop of \<^verbatim>\<open>backupFiles\<close>: \<^verbatim>\<open>for i := l.backups - 1; i > 0; i--\<close>.\<close>

function backupFiles_loop :: "string \<Rightarrow> int \<Rightarrow> env \<Rightarrow> env" where
  "backupFiles_loop nm i w =
     (if i > 0 then
        (let src = backup_name nm i;
             dest = backup_name nm (int64 (i + 1))
         in backupFiles_loop nm (i - 1)
              (case os_Stat w src of Inr sz \<Rightarrow> snd (os_Rename w src dest) | Inl e \<Rightarrow> w))
      else w)"
  by pat_completeness auto
termination
  by (relation "measure (\<lambda>(nm, i, w). nat i)") auto

declare backupFiles_loop.simps [simp del]

definition backupFiles :: "FileLogger \<Rightarrow> env \<Rightarrow> env" where
  "backupFiles l w =
     (let w1 = backupFiles_loop (name l) (int64 (backups l - 1)) w;
          dest = name l @ ''.1''
      in snd (os_Rename w1 (name l) dest))"

definition ClearCurLogFile :: "FileLogger \<Rightarrow> env \<Rightarrow> error option \<times> FileLogger \<times> env" where
  "ClearCurLogFile l w = openFile l w True"

text \<open>The loop of \<^verbatim>\<open>ClearAllLogFile\<close>: \<^verbatim>\<open>for i := l.backups; i > 0; i--\<close>, left
  at the first \<^verbatim>\<open>os.Remove\<close> that fails.\<close>

function ClearAll_loop :: "string \<Rightarrow> int \<Rightarrow> env \<Rightarrow> error option \<times> env" where
  "ClearAll_loop nm i w =
     (if i > 0 then
        (let logFile = backup_name nm i
         in case os_Stat w logFile of
              Inr sz \<Rightarrow>
                (case os_Remove w logFile of
                   (Some e, w') \<Rightarrow> (Some e, w')
                 | (None, w') \<Rightarrow> ClearAll_loop nm (i - 1) w')
            | Inl e \<Rightarrow> ClearAll_loop nm (i - 1) w)
      else (None, w))"
  by pat_completeness auto
termination
  by (relation "measure (\<lambda>(nm, i, w). nat i)") auto

declare ClearAll_loop.simps [simp del]

definition ClearAllLogFile :: "FileLogger \<Rightarrow> env \<Rightarrow> error option \<times> FileLogger \<times> env" where
  "ClearAllLogFile l w =
     (case ClearAll_loop (name l) (backups l) w of
        (Some e, w') \<Rightarrow> (Some e, l, w')
      | (None, w') \<Rightarrow>
          (case openFile l w' True of
             (Some e, l', w'') \<Rightarrow> (Some e, l', w'')
           | (None, l', w'') \<Rightarrow> (None, l', w'')))"

text \<open>\<^verbatim>\<open>ReadLog\<close>: the tail of the function, from \<^verbatim>\<open>make([]byte, length)\<close> on.\<close>

definition read_buffer :: "env \<Rightarrow> string \<Rightarrow> int \<Rightarrow> int \<Rightarrow> panic + (string \<times> error option)" where
  "read_buffer w f len offset =
     (if \<not> makeslice_ok len then Inl MakeSliceLenOutOfRange
      else (case File_ReadAt w f len offset of
              (d, Some e) \<Rightarrow> Inr ('''', Some (ErrorString ''FAILED''))
            | (d, None) \<Rightarrow> Inr (d, None)))"

definition ReadLog :: "FileLogger \<Rightarrow> env \<Rightarrow> int \<Rightarrow> int \<Rightarrow> panic + (string \<times> error option)" where
  "ReadLog l w offset len =
     (if offset < 0 \<and> len \<noteq> 0 then Inr ('''', Some (ErrorString ''BAD_ARGUMENTS''))
      else if offset \<ge> 0 \<and> len < 0 then Inr ('''', Some (ErrorString ''BAD_ARGUMENTS''))
      else
        (case os_Open w (name l) of
           Inl e \<Rightarrow> Inr ('''', Some (ErrorString ''FAILED''))
         | Inr f \<Rightarrow>
             (case File_Stat w f of
                Inl e \<Rightarrow> Inr ('''', Some (ErrorString ''FAILED''))
              | Inr fileLen \<Rightarrow>
                  if offset < 0 then
                    (let offset1 = int64 (fileLen + offset);
                         offset2 = (if offset1 < 0 then 0 else offset1);
                         len1 = int64 (fileLen - offset2)
                     in read_buffer w f len1 offset2)
                  else if len = 0 then
                    (if offset > fileLen then Inr ('''', None)
                     else read_buffer w f (int64 (fileLen - offset)) offset)
                  else
                    (if offset \<ge> fileLen then Inr ('''', None)
                     else
                       (let len1 = (if int64 (offset + len) > fileLen then int64 (fileLen - offset) else len)
                        in read_buffer w f len1 offset)))))"

text \<open>\<^verbatim>\<open>ReadTailLog\<close> returns (data, offset, overflow, error). Its tail, from
  \<^verbatim>\<open>make([]byte, length)\<close> on:\<close>

definition tail_buffer ::
  "env \<Rightarrow> string \<Rightarrow> int \<Rightarrow> int \<Rightarrow> panic + (string \<times> int \<times> bool \<times> error option)" where
  "tail_buffer w f len offset =
     (if \<not> makeslice_ok len then Inl MakeSliceLenOutOfRange
      else (case File_ReadAt w f len offset of
              (d, Some e) \<Rightarrow> Inr ('''', offset, False, Some e)
            | (d, None) \<Rightarrow> Inr (d, int64 (offset + int (length d)), False, None)))"

definition ReadTailLog ::
  "FileLogger \<Rightarrow> env \<Rightarrow> int \<Rightarrow> int \<Rightarrow> panic + (string \<times> int \<times> bool \<times> error option)" where
  "ReadTailLog l w offset len =
     (if offset < 0 then
        Inr ('''', offset, False, Some (ErrorString ''offset should not be less than 0''))
      else if len < 0 then
        Inr ('''', offset, False, Some (ErrorString ''length should be not be less than 0''))
      else
        (case os_Open w (name l) of
           Inl e \<Rightarrow> Inr ('''', 0, False, Some e)
         | Inr f \<Rightarrow>
             (case File_Stat w f of
                Inl e \<Rightarrow> Inr ('''', 0, False, Some e)
              | Inr fileLen \<Rightarrow>
                  if offset \<ge> fileLen then Inr ('''', fileLen, True, None)
                  else
                    (let len1 = (if int64 (offset + len) > fileLen then int64 (fileLen - offset) else len)
                     in tail_buffer w f len1 offset))))"

text \<open>\<^verbatim>\<open>Write\<close>: the rotation at its end (\<^verbatim>\<open>Close\<close>, \<^verbatim>\<open>backupFiles\<close>,
  \<^verbatim>\<open>openFile(true)\<close>, whose error is dropped).\<close>

definition Write_rotate :: "FileLogger \<Rightarrow> env \<Rightarrow> FileLogger \<times> env" where
  "Write_rotate l w =
     (if fileSize l \<ge> maxSize l then
        (let l1 = Close l;
             w1 = backupFiles l1 w
         in case openFile l1 w1 True of (err, l2, w2) \<Rightarrow> (l2, w2))
      else (l, w))"

definition Write :: "FileLogger \<Rightarrow> env \<Rightarrow> string \<Rightarrow> (int \<times> error option) \<times> FileLogger \<times> env" where
  "Write l w p =
     (case File_Write (fileH l) w p of
        ((n, Some err), w1) \<Rightarrow> ((n, Some err), l, w1)
      | ((n, None), w1) \<Rightarrow>
          (let w2 = emitLogEvent (logEventEmitter l) p w1;
               l1 = l\<lparr>fileSize := int64 (fileSize l + n)\<rparr>
           in if fileSize l1 \<ge> maxSize l1 then
                (case os_Stat w2 (name l1) of
                   Inr sz \<Rightarrow>
                     (case Write_rotate (l1\<lparr>fileSize := sz\<rparr>) w2 of (l2, w3) \<Rightarrow> ((n, None), l2, w3))
                 | Inl errStat \<Rightarrow> ((n, Some errStat), l1, w2))
              else (case Write_rotate l1 w2 of (l2, w3) \<Rightarrow> ((n, None), l2, w3))))"

section \<open>\<^verbatim>\<open>NullLogger\<close> and \<^verbatim>\<open>StdLogger\<close>\<close>

record NullLogger =
  nullEmitter :: LogEventEmitter   \<comment> \<open>the field \<^verbatim>\<open>logEventEmitter\<close>\<close>

definition NewNullLogger :: "LogEventEmitter \<Rightarrow> NullLogger" where
  "NewNullLogger em = \<lparr>nullEmitter = em\<rparr>"

definition NullLogger_Write :: "NullLogger \<Rightarrow> env \<Rightarrow> string \<Rightarrow> (int \<times> error option) \<times> env" where
  "NullLogger_Write l w p = ((int (length p), None), emitLogEvent (nullEmitter l) p w)"

definition NullLogger_ReadLog :: "int \<Rightarrow> int \<Rightarrow> string \<times> error option" where
  "NullLogger_ReadLog offset len = ('''', Some (ErrorString ''NO_FILE''))"

definition NullLogger_ReadTailLog :: "int \<Rightarrow> int \<Rightarrow> string \<times> int \<times> bool \<times> error option" where
  "NullLogger_ReadTailLog offset len = ('''', 0, False, Some (ErrorString ''NO_FILE''))"

definition NullLogger_ClearCurLogFile :: "error option" where
  "NullLogger_ClearCurLogFile = Some (ErrorString ''No log'')"

definition NullLogger_ClearAllLogFile :: "error option" where
  "NullLogger_ClearAllLogFile = Some (ErrorString ''NO_FILE'')"

text \<open>\<^verbatim>\<open>StdLogger\<close> embeds a \<^verbatim>\<open>NullLogger\<close> and overrides \<^verbatim>\<open>Write\<close> only.\<close>

record StdLogger =
  stdEmitter :: LogEventEmitter   \<comment> \<open>the field \<^verbatim>\<open>logEventEmitter\<close>\<close>
  writer :: stdstream

definition NewStdoutLogger :: "LogEventEmitter \<Rightarrow> StdLogger" where
  "NewStdoutLogger em = \<lparr>stdEmitter = em, writer = Stdout\<rparr>"

definition NewStderrLogger :: "LogEventEmitter \<Rightarrow> StdLogger" where
  "NewStderrLogger em = \<lparr>stdEmitter = em, writer = Stderr\<rparr>"

definition StdLogger_Write :: "StdLogger \<Rightarrow> env \<Rightarrow> string \<Rightarrow> (int \<times> error option) \<times> env" where
  "StdLogger_Write l w p =
     (case Writer_Write (writer l) w p of
        ((n, Some err), w1) \<Rightarrow> ((n, Some err), emitLogEvent (stdEmitter l) p w1)
      | ((n, None), w1) \<Rightarrow> ((n, None), w1))"

section \<open>The \<^verbatim>\<open>Logger\<close> interface and \<^verbatim>\<open>NewLogger\<close> (log.go)\<close>

text \<open>The implementations of the interface. The methods of \<^verbatim>\<open>SysLogger\<close> and its
  constructor are not in the sources at hand: its state is a type parameter, its
  constructor and its \<^verbatim>\<open>Write\<close> are parameters of the functions below, and its other
  methods are those of the \<^verbatim>\<open>NullLogger\<close> it embeds.\<close>

datatype 's Logger =
    FileSink FileLogger
  | StdSink StdLogger
  | NullSink NullLogger
  | SysSink 's

definition Logger_Write ::
  "('s \<Rightarrow> env \<Rightarrow> string \<Rightarrow> (int \<times> error option) \<times> 's \<times> env) \<Rightarrow>
   's Logger \<Rightarrow> env \<Rightarrow> string \<Rightarrow> (int \<times> error option) \<times> 's Logger \<times> env" where
  "Logger_Write sysWrite lg w p =
     (case lg of
        FileSink l \<Rightarrow> (case Write l w p of (r, l', w') \<Rightarrow> (r, FileSink l', w'))
      | StdSink l \<Rightarrow> (case StdLogger_Write l w p of (r, w') \<Rightarrow> (r, StdSink l, w'))
      | NullSink l \<Rightarrow> (case NullLogger_Write l w p of (r, w') \<Rightarrow> (r, NullSink l, w'))
      | SysSink l \<Rightarrow> (case sysWrite l w p of (r, l', w') \<Rightarrow> (r, SysSink l', w')))"

definition Logger_ReadLog :: "'s Logger \<Rightarrow> env \<Rightarrow> int \<Rightarrow> int \<Rightarrow> panic + (string \<times> error option)" where
  "Logger_ReadLog lg w offset len =
     (case lg of
        FileSink l \<Rightarrow> ReadLog l w offset len
      | _ \<Rightarrow> Inr (NullLogger_ReadLog offset len))"

definition Logger_ReadTailLog ::
  "'s Logger \<Rightarrow> env \<Rightarrow> int \<Rightarrow> int \<Rightarrow> panic + (string \<times> int \<times> bool \<times> error option)" where
  "Logger_ReadTailLog lg w offset len =
     (case lg of
        FileSink l \<Rightarrow> ReadTailLog l w offset len
      | _ \<Rightarrow> Inr (NullLogger_ReadTailLog offset len))"

definition Logger_ClearCurLogFile :: "'s Logger \<Rightarrow> env \<Rightarrow> error option \<times> 's Logger \<times> env" where
  "Logger_ClearCurLogFile lg w =
     (case lg of
        FileSink l \<Rightarrow> (case ClearCurLogFile l w of (err, l', w') \<Rightarrow> (err, FileSink l', w'))
      | _ \<Rightarrow> (NullLogger_ClearCurLogFile, lg, w))"

definition Logger_ClearAllLogFile :: "'s Logger \<Rightarrow> env \<Rightarrow> error option \<times> 's Logger \<times> env" where
  "Logger_ClearAllLogFile lg w =
     (case lg of
        FileSink l \<Rightarrow> (case ClearAllLogFile l w of (err, l', w') \<Rightarrow> (err, FileSink l', w'))
      | _ \<Rightarrow> (NullLogger_ClearAllLogFile, lg, w))"

subsection \<open>\<^verbatim>\<open>strings.Split(s, ",")\<close> and \<^verbatim>\<open>strings.TrimSpace\<close>\<close>

text \<open>\<^verbatim>\<open>strings.Split\<close> returns one more part than there are commas, so never the
  empty slice; the case of an empty result below is there for totality only.\<close>

fun Split_comma :: "string \<Rightarrow> string list" where
  "Split_comma [] = [[]]"
| "Split_comma (c # cs) =
     (if c = CHR '','' then [] # Split_comma cs
      else (case Split_comma cs of t # ts \<Rightarrow> (c # t) # ts | [] \<Rightarrow> [[c]]))"

text \<open>The code points with \<^verbatim>\<open>unicode.IsSpace\<close>, in UTF-8: the six ASCII ones,
  U+0085, U+00A0, U+1680, U+2000 to U+200A, U+2028, U+2029, U+202F, U+205F, U+3000.\<close>

definition space1 :: "char \<Rightarrow> bool" where
  "space1 c = (c \<in> set [CHR 0x09, CHR 0x0A, CHR 0x0B, CHR 0x0C, CHR 0x0D, CHR 0x20])"

definition space2 :: "char \<Rightarrow> char \<Rightarrow> bool" where
  "space2 c1 c2 = (c1 = CHR 0xC2 \<and> (c2 = CHR 0x85 \<or> c2 = CHR 0xA0))"

definition space3 :: "char \<Rightarrow> char \<Rightarrow> char \<Rightarrow> bool" where
  "space3 c1 c2 c3 =
     ((c1 = CHR 0xE1 \<and> c2 = CHR 0x9A \<and> c3 = CHR 0x80) \<or>
      (c1 = CHR 0xE2 \<and> c2 = CHR 0x80 \<and>
         c3 \<in> set [CHR 0x80, CHR 0x81, CHR 0x82, CHR 0x83, CHR 0x84, CHR 0x85, CHR 0x86, CHR 0x87,
                   CHR 0x88, CHR 0x89, CHR 0x8A, CHR 0xA8, CHR 0xA9, CHR 0xAF]) \<or>
      (c1 = CHR 0xE2 \<and> c2 = CHR 0x81 \<and> c3 = CHR 0x9F) \<or>
      (c1 = CHR 0xE3 \<and> c2 = CHR 0x80 \<and> c3 = CHR 0x80))"

fun TrimLeft :: "string \<Rightarrow> string" where
  "TrimLeft (c1 # c2 # c3 # cs) =
     (if space1 c1 then TrimLeft (c2 # c3 # cs)
      else if space2 c1 c2 then TrimLeft (c3 # cs)
      else if space3 c1 c2 c3 then TrimLeft cs
      else c1 # c2 # c3 # cs)"
| "TrimLeft [c1, c2] =
     (if space1 c1 then TrimLeft [c2] else if space2 c1 c2 then [] else [c1, c2])"
| "TrimLeft [c1] = (if space1 c1 then [] else [c1])"
| "TrimLeft [] = []"

text \<open>Trimming on the right, on the reversed string: \<open>c1\<close> is the last byte.\<close>

fun TrimRight_rev :: "string \<Rightarrow> string" where
  "TrimRight_rev (c1 # c2 # c3 # cs) =
     (if space1 c1 then TrimRight_rev (c2 # c3 # cs)
      else if space2 c2 c1 then TrimRight_rev (c3 # cs)
      else if space3 c3 c2 c1 then TrimRight_rev cs
      else c1 # c2 # c3 # cs)"
| "TrimRight_rev [c1, c2] =
     (if space1 c1 then TrimRight_rev [c2] else if space2 c2 c1 then [] else [c1, c2])"
| "TrimRight_rev [c1] = (if space1 c1 then [] else [c1])"
| "TrimRight_rev [] = []"

definition TrimSpace :: "string \<Rightarrow> string" where
  "TrimSpace s = rev (TrimRight_rev (rev (TrimLeft s)))"

definition splitLogFile :: "string \<Rightarrow> string list" where
  "splitLogFile logFile = map TrimSpace (Split_comma logFile)"

subsection \<open>\<^verbatim>\<open>createLogger\<close> and \<^verbatim>\<open>NewLogger\<close>\<close>

text \<open>The locker argument is not modelled.\<close>

definition createLogger ::
  "(string \<Rightarrow> (string \<rightharpoonup> string) \<Rightarrow> LogEventEmitter \<Rightarrow> 's Logger) \<Rightarrow>
   string \<Rightarrow> string \<Rightarrow> int \<Rightarrow> int \<Rightarrow> (string \<rightharpoonup> string) \<Rightarrow> LogEventEmitter \<Rightarrow> env \<Rightarrow>
   's Logger \<times> env" where
  "createLogger NewSysLogger programName logFile maxBytes bk props em w =
     (if logFile = ''/dev/stdout'' then (StdSink (NewStdoutLogger em), w)
      else if logFile = ''/dev/stderr'' then (StdSink (NewStderrLogger em), w)
      else if logFile = ''/dev/null'' then (NullSink (NewNullLogger em), w)
      else if logFile = ''syslog'' then (NewSysLogger programName props em, w)
      else if length logFile > 0 then
        (case NewFileLogger logFile maxBytes bk em w of (l, w') \<Rightarrow> (FileSink l, w'))
      else (NullSink (NewNullLogger em), w))"

fun NewLogger_loop ::
  "(string \<Rightarrow> (string \<rightharpoonup> string) \<Rightarrow> LogEventEmitter \<Rightarrow> 's Logger) \<Rightarrow>
   string \<Rightarrow> int \<Rightarrow> int \<Rightarrow> (string \<rightharpoonup> string) \<Rightarrow> LogEventEmitter \<Rightarrow>
   nat \<Rightarrow> string list \<Rightarrow> env \<Rightarrow> 's Logger list \<times> env" where
  "NewLogger_loop NewSysLogger programName maxBytes bk props em i [] w = ([], w)"
| "NewLogger_loop NewSysLogger programName maxBytes bk props em i (f # fs) w =
     (case createLogger NewSysLogger programName f maxBytes bk props
             (if i = 0 then em else NullLogEventEmitter) w of
        (lr, w1) \<Rightarrow>
          (case NewLogger_loop NewSysLogger programName maxBytes bk props em (Suc i) fs w1 of
             (rest, w2) \<Rightarrow> (lr # rest, w2)))"

text \<open>A \<^verbatim>\<open>CompositeLogger\<close> is its slice \<^verbatim>\<open>loggers\<close>.\<close>

definition NewLogger ::
  "(string \<Rightarrow> (string \<rightharpoonup> string) \<Rightarrow> LogEventEmitter \<Rightarrow> 's Logger) \<Rightarrow>
   string \<Rightarrow> string \<Rightarrow> int \<Rightarrow> int \<Rightarrow> (string \<rightharpoonup> string) \<Rightarrow> LogEventEmitter \<Rightarrow> env \<Rightarrow>
   's Logger list \<times> env" where
  "NewLogger NewSysLogger programName logFile maxBytes bk props em w =
     NewLogger_loop NewSysLogger programName maxBytes bk props em 0 (splitLogFile logFile) w"

section \<open>\<^verbatim>\<open>CompositeLogger\<close> (log.go)\<close>

text \<open>\<^verbatim>\<open>CompositeLogger.Write\<close>: the loop over \<^verbatim>\<open>cl.loggers\<close>, with the index \<open>i\<close>
  and the named results \<open>(n, err)\<close>. The method \<^verbatim>\<open>Write\<close> of the interface is the
  parameter \<open>wr\<close>; each sink's new state replaces the old one.\<close>

fun CompositeLogger_Write_loop ::
  "('l \<Rightarrow> 'w \<Rightarrow> string \<Rightarrow> (int \<times> 'e option) \<times> 'l \<times> 'w) \<Rightarrow>
   nat \<Rightarrow> 'l list \<Rightarrow> (int \<times> 'e option) \<Rightarrow> 'w \<Rightarrow> string \<Rightarrow> (int \<times> 'e option) \<times> 'l list \<times> 'w" where
  "CompositeLogger_Write_loop wr i [] res w p = (res, [], w)"
| "CompositeLogger_Write_loop wr i (logger # rest) res w p =
     (case wr logger w p of
        (r, logger', w1) \<Rightarrow>
          (case CompositeLogger_Write_loop wr (Suc i) rest (if i = 0 then r else res) w1 p of
             (res', rest', w2) \<Rightarrow> (res', logger' # rest', w2)))"

definition CompositeLogger_Write ::
  "('l \<Rightarrow> 'w \<Rightarrow> string \<Rightarrow> (int \<times> 'e option) \<times> 'l \<times> 'w) \<Rightarrow>
   'l list \<Rightarrow> 'w \<Rightarrow> string \<Rightarrow> (int \<times> 'e option) \<times> 'l list \<times> 'w" where
  "CompositeLogger_Write wr loggers w p = CompositeLogger_Write_loop wr 0 loggers (0, None) w p"

text \<open>The read and clear methods index \<^verbatim>\<open>cl.loggers[0]\<close>.\<close>

definition CompositeLogger_ReadLog ::
  "'s Logger list \<Rightarrow> env \<Rightarrow> int \<Rightarrow> int \<Rightarrow> panic + (string \<times> error option)" where
  "CompositeLogger_ReadLog loggers w offset len =
     (case loggers of [] \<Rightarrow> Inl IndexOutOfRange | l0 # rest \<Rightarrow> Logger_ReadLog l0 w offset len)"

definition CompositeLogger_ReadTailLog ::
  "'s Logger list \<Rightarrow> env \<Rightarrow> int \<Rightarrow> int \<Rightarrow> panic + (string \<times> int \<times> bool \<times> error option)" where
  "CompositeLogger_ReadTailLog loggers w offset len =
     (case loggers of [] \<Rightarrow> Inl IndexOutOfRange | l0 # rest \<Rightarrow> Logger_ReadTailLog l0 w offset len)"

definition CompositeLogger_ClearCurLogFile ::
  "'s Logger list \<Rightarrow> env \<Rightarrow> panic + (error option \<times> 's Logger list \<times> env)" where
  "CompositeLogger_ClearCurLogFile loggers w =
     (case loggers of
        [] \<Rightarrow> Inl IndexOutOfRange
      | l0 # rest \<Rightarrow> (case Logger_ClearCurLogFile l0 w of (err, l0', w') \<Rightarrow> Inr (err, l0' # rest, w')))"

definition CompositeLogger_ClearAllLogFile ::
  "'s Logger list \<Rightarrow> env \<Rightarrow> panic + (error option \<times> 's Logger list \<times> env)" where
  "CompositeLogger_ClearAllLogFile loggers w =
     (case loggers of
        [] \<Rightarrow> Inl IndexOutOfRange
      | l0 # rest \<Rightarrow> (case Logger_ClearAllLogFile l0 w of (err, l0', w') \<Rightarrow> Inr (err, l0' # rest, w')))"

text \<open>An environment with no file, no fault, empty streams and no notification.\<close>

definition env0 :: env where
  "env0 = \<lparr>files = Map.empty, fault = (\<lambda>s path. None), streams = (\<lambda>s. []),
            stream_fault = (\<lambda>s. None), events = []\<rparr>"

section \<open>Notions used in the statements\<close>

text \<open>A file that \<^verbatim>\<open>ReadLog\<close> and \<^verbatim>\<open>ReadTailLog\<close> can open, size and read: it
  exists with content \<open>c\<close>, no system call of the read path fails on it, and it is no
  longer than one allocation may be.\<close>

definition readable :: "env \<Rightarrow> string \<Rightarrow> string \<Rightarrow> bool" where
  "readable w path c =
     (files w path = Some c \<and> fault w SysOpen path = None \<and> fault w SysFstat path = None \<and>
      fault w SysReadAt path = None \<and> int (length c) \<le> maxAlloc)"

text \<open>Writing to every sink of a sequence in order, as the specification words it: the
  sinks' new states and the environment after the last write.\<close>

fun write_each ::
  "('l \<Rightarrow> 'w \<Rightarrow> string \<Rightarrow> (int \<times> 'e option) \<times> 'l \<times> 'w) \<Rightarrow> 'l list \<Rightarrow> 'w \<Rightarrow> string \<Rightarrow> 'l list \<times> 'w" where
  "write_each wr [] w p = ([], w)"
| "write_each wr (l # ls) w p =
     (case wr l w p of
        (r, l', w1) \<Rightarrow> (case write_each wr ls w1 p of (ls', w2) \<Rightarrow> (l' # ls', w2)))"

subsection \<open>Concrete sinks\<close>

text \<open>A file sink on \<open>app.log\<close> (threshold 100, retention 2) after \<open>hello\<close> was written.\<close>

definition hello_sink :: "FileLogger \<times> env" where
  "hello_sink =
     (case NewFileLogger ''app.log'' 100 2 (Listener 0) env0 of
        (l0, w0) \<Rightarrow> (case Write l0 w0 ''hello'' of (r, l1, w1) \<Rightarrow> (l1, w1)))"

text \<open>A file sink (threshold 10) where \<^verbatim>\<open>os.Stat\<close> of the log file is refused.\<close>

definition stat_denied :: env where
  "stat_denied =
     env0\<lparr>fault := (\<lambda>s path. if s = SysStat \<and> path = ''app.log'' then Some (Errno 13) else None)\<rparr>"

definition denied_sink :: "FileLogger \<times> env" where
  "denied_sink = NewFileLogger ''app.log'' 10 2 (Listener 0) stat_denied"

text \<open>A dispatcher over a file sink and the standard error stream, which is broken.\<close>

definition broken_stderr :: env where
  "broken_stderr = env0\<lparr>stream_fault := (\<lambda>s. if s = Stderr then Some (0, Errno 32) else None)\<rparr>"

definition no_syslog :: "unit \<Rightarrow> env \<Rightarrow> string \<Rightarrow> (int \<times> error option) \<times> unit \<times> env" where
  "no_syslog s w p = ((0, Some (ErrorString ''no syslog'')), s, w)"

definition fanout :: "unit Logger list \<times> env" where
  "fanout =
     NewLogger (\<lambda>prog props em. NullSink (NewNullLogger em)) ''prog'' ''app.log, /dev/stderr''
       100 2 Map.empty (Listener 0) broken_stderr"

text \<open>A file sink with retention 3 after three rotations: all three backups exist.\<close>

definition full_sink :: "FileLogger \<times> env" where
  "full_sink =
     (case NewFileLogger ''app.log'' 2 3 (Listener 0) env0 of (l0, w0) \<Rightarrow>
      case Write l0 w0 ''b3'' of (r1, l1, w1) \<Rightarrow>
      case Write l1 w1 ''b2'' of (r2, l2, w2) \<Rightarrow>
      case Write l2 w2 ''b1'' of (r3, l3, w3) \<Rightarrow>
      case Write l3 w3 ''n'' of (r4, l4, w4) \<Rightarrow> (l4, w4))"

text \<open>The same environment when \<^verbatim>\<open>os.Remove\<close> of backup 2 is refused.\<close>

definition remove_denied :: "env \<Rightarrow> env" where
  "remove_denied w =
     w\<lparr>fault := (\<lambda>s path. if s = SysRemove \<and> path = ''app.log.2'' then Some (Errno 13) else None)\<rparr>"

section \<open>Basic facts\<close>

lemma int64_id: "in_int64 x \<Longrightarrow> int64 x = x"
  unfolding int64_def in_int64_def by simp

lemma backupFiles_loop_pos:
  "i > 0 \<Longrightarrow> backupFiles_loop nm i w =
     backupFiles_loop nm (i - 1)
       (case os_Stat w (backup_name nm i) of
          Inr sz \<Rightarrow> snd (os_Rename w (backup_name nm i) (backup_name nm (int64 (i + 1))))
        | Inl e \<Rightarrow> w)"
  by (subst backupFiles_loop.simps) (simp add: Let_def)

lemma backupFiles_loop_nonpos: "\<not> i > 0 \<Longrightarrow> backupFiles_loop nm i w = w"
  by (subst backupFiles_loop.simps) simp

lemma digits_small: "n < 10 \<Longrightarrow> digits n = [''0123456789'' ! n]"
  by (subst digits.simps) simp

lemma backup_name_1: "backup_name nm 1 = nm @ ''.1''"
  by (simp add: backup_name_def Itoa_def digits_small)

lemma backup_name_2: "backup_name nm 2 = nm @ ''.2''"
  by (simp add: backup_name_def Itoa_def digits_small)

lemma emitLogEvent_fields [simp]:
  "files (emitLogEvent em d w) = files w"
  "fault (emitLogEvent em d w) = fault w"
  "streams (emitLogEvent em d w) = streams w"
  "stream_fault (emitLogEvent em d w) = stream_fault w"
  by (cases em; simp)+

lemmas eval_defs = NewFileLogger_def openFile_def os_Stat_def os_Create_def os_OpenFile_def
  Write_def File_Write_def Write_rotate_def Close_def backupFiles_def os_Rename_def
  backupFiles_loop_pos backupFiles_loop_nonpos backup_name_1 backup_name_2 int64_def env0_def Let_def

lemma os_Stat_emit [simp]: "os_Stat (emitLogEvent em d w) path = os_Stat w path"
  by (cases em) (auto simp: os_Stat_def split: option.splits)

lemma os_Stat_File_Write:
  "os_Stat w nm = Inl e \<Longrightarrow> os_Stat (snd (File_Write h w p)) nm = Inl e"
  by (auto simp: os_Stat_def File_Write_def split: option.splits if_splits)

lemma hello_sink_eq:
  "hello_sink =
     (\<lparr>name = ''app.log'', maxSize = 100, backups = 2, fileSize = 5, fileH = Some ''app.log'',
        logEventEmitter = Listener 0\<rparr>,
      env0\<lparr>files := [''app.log'' \<mapsto> ''hello''], events := [(0, ''hello'')]\<rparr>)"
  by (simp add: hello_sink_def eval_defs)

lemma denied_sink_eq:
  "denied_sink =
     (\<lparr>name = ''app.log'', maxSize = 10, backups = 2, fileSize = 0, fileH = Some ''app.log'',
        logEventEmitter = Listener 0\<rparr>,
      stat_denied\<lparr>files := [''app.log'' \<mapsto> []]\<rparr>)"
  by (simp add: denied_sink_def stat_denied_def eval_defs)

lemma TrimSpace_app_log: "TrimSpace ''app.log'' = ''app.log''"
  by (simp add: TrimSpace_def space1_def space2_def space3_def)

lemma TrimSpace_dev_stderr: "TrimSpace '' /dev/stderr'' = ''/dev/stderr''"
  by (simp add: TrimSpace_def space1_def space2_def space3_def)

lemma fanout_eq:
  "fanout =
     ([FileSink \<lparr>name = ''app.log'', maxSize = 100, backups = 2, fileSize = 0,
                 fileH = Some ''app.log'', logEventEmitter = Listener 0\<rparr>,
       StdSink \<lparr>stdEmitter = NullLogEventEmitter, writer = Stderr\<rparr>],
      broken_stderr\<lparr>files := [''app.log'' \<mapsto> []]\<rparr>)"
  by (simp add: fanout_def NewLogger_def splitLogFile_def TrimSpace_app_log TrimSpace_dev_stderr
      createLogger_def NewFileLogger_def openFile_def os_Stat_def os_Create_def broken_stderr_def
      env0_def NewStderrLogger_def)

subsection \<open>Reading inside the file\<close>

lemma read_buffer_within:
  assumes "readable w f c" "0 \<le> off" "0 \<le> n" "off + n \<le> int (length c)"
  shows "read_buffer w f n off = Inr (take (nat n) (drop (nat off) c), None)"
proof -
  have "n \<le> maxAlloc" using assms by (simp add: readable_def)
  moreover have "int (length (take (nat n) (drop (nat off) c))) = n"
    using assms by simp
  ultimately show ?thesis
    using assms by (simp add: read_buffer_def makeslice_ok_def File_ReadAt_def readable_def)
qed

lemma tail_buffer_within:
  assumes "readable w f c" "0 \<le> offset" "0 \<le> n" "n \<le> int (length c) - offset"
  shows "tail_buffer w f n offset = Inr (take (nat n) (drop (nat offset) c), offset + n, False, None)"
proof -
  have L: "int (length c) \<le> maxAlloc" using assms(1) by (simp add: readable_def)
  have ok: "makeslice_ok n" using assms L by (simp add: makeslice_ok_def)
  define d where "d = take (nat n) (drop (nat offset) c)"
  have dl: "int (length d) = n" using assms by (simp add: d_def)
  have ra: "File_ReadAt w f n offset = (d, None)"
    using assms dl by (simp add: File_ReadAt_def d_def Let_def readable_def)
  have o: "int64 (offset + n) = offset + n"
    using assms L by (intro int64_id) (auto simp: in_int64_def maxAlloc_def)
  show ?thesis using ok ra dl o by (simp add: d_def tail_buffer_def)
qed

lemma ReadTailLog_readable:
  assumes "readable w (name l) c" "0 \<le> offset" "0 \<le> len" "offset + len \<le> MaxInt64"
  shows "ReadTailLog l w offset len =
     (if offset \<ge> int (length c) then Inr ('''', int (length c), True, None)
      else Inr (take (nat (min len (int (length c) - offset))) (drop (nat offset) c),
                offset + min len (int (length c) - offset), False, None))"
proof -
  let ?L = "int (length c)"
  have L: "0 \<le> ?L" "?L \<le> maxAlloc" using assms(1) by (auto simp: readable_def)
  have op: "os_Open w (name l) = Inr (name l)" "File_Stat w (name l) = Inr ?L"
    using assms(1) by (auto simp: readable_def os_Open_def File_Stat_def)
  show ?thesis
  proof (cases "offset \<ge> ?L")
    case True
    then show ?thesis using op assms(2,3) by (auto simp: ReadTailLog_def)
  next
    case False
    then have r: "0 \<le> offset" "0 \<le> len" "offset < ?L" using assms(2,3) by auto
    have s: "int64 (offset + len) = offset + len"
      using r assms(4) by (intro int64_id) (auto simp: in_int64_def MaxInt64_def)
    have b: "int64 (?L - offset) = ?L - offset"
      using L r by (intro int64_id) (auto simp: in_int64_def maxAlloc_def)
    have "ReadTailLog l w offset len =
        Inr (take (nat (min len (?L - offset))) (drop (nat offset) c),
             offset + min len (?L - offset), False, None)"
    proof (cases "offset + len > ?L")
      case True
      then have m: "min len (?L - offset) = ?L - offset" by simp
      have c: "0 \<le> ?L - offset" "?L - offset \<le> ?L - offset" using r by auto
      show ?thesis using r op s b True
        unfolding ReadTailLog_def m Let_def
        by (simp add: tail_buffer_within [OF assms(1) r(1) c])
    next
      case F: False
      then have m: "min len (?L - offset) = len" by simp
      have c: "len \<le> ?L - offset" using F by simp
      show ?thesis using r op s F
        unfolding ReadTailLog_def m Let_def
        by (simp add: tail_buffer_within [OF assms(1) r(1) r(2) c])
    qed
    then show ?thesis using r by simp
  qed
qed


text \<open>\<^verbatim>\<open>ReadLog\<close> on every pair of arguments whose sum stays inside \<^verbatim>\<open>int64\<close>:
  the argument check, the last \<open>|offset|\<close> bytes (all of the file when there are fewer),
  the bytes from \<open>offset\<close> to the end, or at most \<open>len\<close> bytes from \<open>offset\<close>; the
  last three are empty when \<open>offset\<close> is at or past the end.\<close>

lemma ReadLog_without_overflow:
  assumes "readable w (name l) c" "in_int64 offset" "in_int64 len" "offset + len \<le> MaxInt64"
  shows "ReadLog l w offset len =
     (if (offset < 0 \<and> len \<noteq> 0) \<or> (offset \<ge> 0 \<and> len < 0)
        then Inr ('''', Some (ErrorString ''BAD_ARGUMENTS''))
      else if offset < 0 then Inr (drop (length c - nat (- offset)) c, None)
      else if len = 0 then Inr (drop (nat offset) c, None)
      else Inr (take (nat len) (drop (nat offset) c), None))"
proof -
  let ?L = "int (length c)"
  have L: "0 \<le> ?L" "?L \<le> maxAlloc" "in_int64 ?L" using assms(1)
    by (auto simp: readable_def maxAlloc_def in_int64_def)
  have op: "os_Open w (name l) = Inr (name l)" "File_Stat w (name l) = Inr ?L"
    using assms(1) by (auto simp: readable_def os_Open_def File_Stat_def)
  consider (bad) "(offset < 0 \<and> len \<noteq> 0) \<or> (offset \<ge> 0 \<and> len < 0)"
    | (neg) "offset < 0" "len = 0" | (toend) "offset \<ge> 0" "len = 0" | (range) "offset \<ge> 0" "len > 0"
    by linarith
  then show ?thesis
  proof cases
    case bad then show ?thesis by (auto simp: ReadLog_def)
  next
    case neg
    have a: "int64 (?L + offset) = ?L + offset"
      using L assms(2) neg by (intro int64_id) (auto simp: in_int64_def maxAlloc_def)
    define o2 where "o2 = (if ?L + offset < 0 then 0 else ?L + offset)"
    have o2: "0 \<le> o2" "o2 \<le> ?L" using neg by (auto simp: o2_def)
    have b: "int64 (?L - o2) = ?L - o2"
      using L o2 by (intro int64_id) (auto simp: in_int64_def maxAlloc_def)
    have "read_buffer w (name l) (?L - o2) o2 = Inr (take (nat (?L - o2)) (drop (nat o2) c), None)"
      using o2 by (intro read_buffer_within[OF assms(1)]) auto
    moreover have "nat o2 = length c - nat (- offset)" using neg by (auto simp: o2_def)
    ultimately show ?thesis using neg op a b
      by (simp add: ReadLog_def Let_def o2_def)
  next
    case toend
    show ?thesis
    proof (cases "offset > ?L")
      case True then show ?thesis using toend op by (simp add: ReadLog_def)
    next
      case False
      have b: "int64 (?L - offset) = ?L - offset"
        using L toend False by (intro int64_id) (auto simp: in_int64_def maxAlloc_def)
      have "read_buffer w (name l) (?L - offset) offset =
          Inr (take (nat (?L - offset)) (drop (nat offset) c), None)"
        using toend False by (intro read_buffer_within[OF assms(1)]) auto
      then show ?thesis using toend op b False by (simp add: ReadLog_def)
    qed
  next
    case range
    have s: "int64 (offset + len) = offset + len"
      using range assms(4) by (intro int64_id) (auto simp: in_int64_def MaxInt64_def)
    show ?thesis
    proof (cases "offset \<ge> ?L")
      case True then show ?thesis using range op by (simp add: ReadLog_def)
    next
      case False
      show ?thesis
      proof (cases "offset + len > ?L")
        case True
        have b: "int64 (?L - offset) = ?L - offset"
          using L range False by (intro int64_id) (auto simp: in_int64_def maxAlloc_def)
        have "read_buffer w (name l) (?L - offset) offset =
            Inr (take (nat (?L - offset)) (drop (nat offset) c), None)"
          using range False by (intro read_buffer_within[OF assms(1)]) auto
        then show ?thesis using range op b s False True by (simp add: ReadLog_def)
      next
        case F2: False
        have "read_buffer w (name l) len offset = Inr (take (nat len) (drop (nat offset) c), None)"
          using range F2 by (intro read_buffer_within[OF assms(1)]) auto
        then show ?thesis using range op s False F2 by (simp add: ReadLog_def)
      qed
    qed
  qed
qed

subsection \<open>The dispatcher\<close>

lemma Write_loop_later:
  "0 < i \<Longrightarrow> CompositeLogger_Write_loop wr i ls res w p = (res, write_each wr ls w p)"
  by (induction ls arbitrary: i res w) (auto split: prod.splits)

lemma Split_comma_nonempty: "Split_comma s \<noteq> []"
  by (induction s) (auto split: list.splits)

lemma NewLogger_loop_length:
  "length (fst (NewLogger_loop nsl prog maxB bk props em i fs w)) = length fs"
  by (induction fs arbitrary: i w) (simp_all add: case_prod_beta)

lemma NewLogger_nonempty: "fst (NewLogger nsl prog logFile maxB bk props em w) \<noteq> []"
proof -
  have "length (fst (NewLogger nsl prog logFile maxB bk props em w)) = length (Split_comma logFile)"
    by (simp add: NewLogger_def NewLogger_loop_length splitLogFile_def)
  then show ?thesis using Split_comma_nonempty [of logFile] by auto
qed

lemma read_buffer_no_index_panic: "read_buffer w f n off \<noteq> Inl IndexOutOfRange"
  by (auto simp: read_buffer_def split: prod.splits option.splits)

lemma ReadLog_no_index_panic: "ReadLog l w off len \<noteq> Inl IndexOutOfRange"
  by (auto simp: ReadLog_def Let_def read_buffer_no_index_panic split: sum.splits)

lemma ReadTailLog_no_index_panic: "ReadTailLog l w off len \<noteq> Inl IndexOutOfRange"
  by (auto simp: ReadTailLog_def tail_buffer_def Let_def split: sum.splits prod.splits option.splits)

lemma Composite_no_index_panic:
  assumes "ls \<noteq> []"
  shows "CompositeLogger_ReadLog ls w off len \<noteq> Inl IndexOutOfRange"
    and "CompositeLogger_ReadTailLog ls w off len \<noteq> Inl IndexOutOfRange"
    and "CompositeLogger_ClearCurLogFile ls w \<noteq> Inl IndexOutOfRange"
    and "CompositeLogger_ClearAllLogFile ls w \<noteq> Inl IndexOutOfRange"
  using assms
  by (auto simp: CompositeLogger_ReadLog_def CompositeLogger_ReadTailLog_def
      CompositeLogger_ClearCurLogFile_def CompositeLogger_ClearAllLogFile_def
      Logger_ReadLog_def Logger_ReadTailLog_def ReadLog_no_index_panic ReadTailLog_no_index_panic
      split: list.splits Logger.splits prod.splits)

lemma NewLogger_empty:
  "NewLogger nsl prog '''' maxB bk props em w = ([NullSink (NewNullLogger em)], w)"
  by (simp add: NewLogger_def splitLogFile_def TrimSpace_def createLogger_def)

subsection \<open>Backup names\<close>

lemma digit_chars_distinct: "distinct ''0123456789''"
  by simp

lemma digit_char_inj:
  assumes "a < 10" "b < 10" "''0123456789'' ! a = ''0123456789'' ! b"
  shows "a = b"
  using assms nth_eq_iff_index_eq [OF digit_chars_distinct, of a b] by simp

lemma digits_nonempty: "digits n \<noteq> []"
  by (subst digits.simps) simp

lemma digits_big: "\<not> n < 10 \<Longrightarrow> digits n = digits (n div 10) @ [''0123456789'' ! (n mod 10)]"
  by (subst digits.simps) simp

lemma digits_inj: "digits n = digits m \<Longrightarrow> n = m"
proof (induction n arbitrary: m rule: digits.induct)
  case (1 n)
  show ?case
  proof (cases "n < 10")
    case n: True
    show ?thesis
    proof (cases "m < 10")
      case True
      with n "1.prems" show ?thesis by (simp add: digits_small digit_char_inj)
    next
      case False
      with n "1.prems" digits_nonempty [of "m div 10"] show ?thesis
        by (simp add: digits_small digits_big)
    qed
  next
    case n: False
    show ?thesis
    proof (cases "m < 10")
      case True
      with n "1.prems" digits_nonempty [of "n div 10"] show ?thesis
        by (simp add: digits_small digits_big)
    next
      case False
      with n "1.prems" have e: "digits (n div 10) = digits (m div 10)"
        and d: "''0123456789'' ! (n mod 10) = ''0123456789'' ! (m mod 10)"
        by (simp_all add: digits_big)
      have "n div 10 = m div 10" using "1.IH" [OF n e] .
      moreover have "n mod 10 = m mod 10" using d by (intro digit_char_inj) simp_all
      ultimately show ?thesis by (metis div_mult_mod_eq)
    qed
  qed
qed

lemma digit_not_minus: "k < 10 \<Longrightarrow> ''0123456789'' ! k \<noteq> CHR ''-''"
proof -
  assume "k < 10"
  then have "''0123456789'' ! k \<in> set ''0123456789''" by (intro nth_mem) simp
  then show ?thesis by auto
qed

lemma digits_no_minus: "CHR ''-'' \<notin> set (digits n)"
proof (induction n rule: digits.induct)
  case (1 n)
  show ?case
  proof (cases "n < 10")
    case True
    then show ?thesis using digit_not_minus [of n] by (simp add: digits_small)
  next
    case False
    then show ?thesis using "1.IH" digit_not_minus [of "n mod 10"] by (simp add: digits_big)
  qed
qed

lemma Itoa_inj: "Itoa i = Itoa j \<Longrightarrow> i = j"
proof -
  assume a: "Itoa i = Itoa j"
  consider (nn) "i < 0" "j < 0" | (np) "i < 0" "0 \<le> j" | (pn) "0 \<le> i" "j < 0" | (pp) "0 \<le> i" "0 \<le> j"
    by linarith
  then show ?thesis
  proof cases
    case nn
    with a have "nat (- i) = nat (- j)" by (auto simp: Itoa_def dest: digits_inj)
    with nn show ?thesis by simp
  next
    case np
    with a have "digits (nat j) = CHR ''-'' # digits (nat (- i))" by (simp add: Itoa_def)
    then have "CHR ''-'' \<in> set (digits (nat j))" by simp
    then show ?thesis using digits_no_minus by blast
  next
    case pn
    with a have "digits (nat i) = CHR ''-'' # digits (nat (- j))" by (simp add: Itoa_def)
    then have "CHR ''-'' \<in> set (digits (nat i))" by simp
    then show ?thesis using digits_no_minus by blast
  next
    case pp
    with a have "nat i = nat j" by (auto simp: Itoa_def dest: digits_inj)
    with pp show ?thesis by simp
  qed
qed

lemma backup_name_inj [simp]: "(backup_name nm i = backup_name nm j) = (i = j)"
  by (auto simp: backup_name_def dest: Itoa_inj)

lemma backup_name_neq_name [simp]: "backup_name nm i \<noteq> nm" "nm \<noteq> backup_name nm i"
  by (simp_all add: backup_name_def)

lemma ClearAll_loop_pos:
  "i > 0 \<Longrightarrow> ClearAll_loop nm i w =
     (case os_Stat w (backup_name nm i) of
        Inr sz \<Rightarrow>
          (case os_Remove w (backup_name nm i) of
             (Some e, w') \<Rightarrow> (Some e, w')
           | (None, w') \<Rightarrow> ClearAll_loop nm (i - 1) w')
      | Inl e \<Rightarrow> ClearAll_loop nm (i - 1) w)"
  by (subst ClearAll_loop.simps) (simp add: Let_def)

lemma ClearAll_loop_nonpos: "\<not> i > 0 \<Longrightarrow> ClearAll_loop nm i w = (None, w)"
  by (subst ClearAll_loop.simps) simp

subsection \<open>The loops over the backups\<close>

text \<open>One round of the loop of \<^verbatim>\<open>ClearAllLogFile\<close>, in the cases the statements need.\<close>

lemma ClearAll_round_removed:
  assumes "0 < i" "files w (backup_name nm i) = Some c"
    "fault w SysStat (backup_name nm i) = None" "fault w SysRemove (backup_name nm i) = None"
  shows "ClearAll_loop nm i w =
           ClearAll_loop nm (i - 1) (w\<lparr>files := (files w)(backup_name nm i := None)\<rparr>)"
  using assms by (simp add: ClearAll_loop_pos os_Stat_def os_Remove_def)

lemma ClearAll_round_missing:
  assumes "0 < i" "files w (backup_name nm i) = None" "fault w SysStat (backup_name nm i) = None"
  shows "ClearAll_loop nm i w = ClearAll_loop nm (i - 1) w"
  using assms by (simp add: ClearAll_loop_pos os_Stat_def)

lemma ClearAll_round_refused:
  assumes "0 < i" "files w (backup_name nm i) = Some c"
    "fault w SysStat (backup_name nm i) = None" "fault w SysRemove (backup_name nm i) = Some e"
  shows "ClearAll_loop nm i w = (Some e, w)"
  using assms by (simp add: ClearAll_loop_pos os_Stat_def os_Remove_def)

lemma ClearAll_loop_success:
  assumes "0 \<le> i"
    and "\<forall>j. fault w SysStat (backup_name nm j) = None"
    and "\<forall>j. 0 < j \<and> j \<le> i \<longrightarrow> fault w SysRemove (backup_name nm j) = None"
  shows "\<exists>w'. ClearAll_loop nm i w = (None, w') \<and> fault w' = fault w \<and>
              (\<forall>q. files w' q = (if \<exists>j. 0 < j \<and> j \<le> i \<and> q = backup_name nm j then None else files w q))"
  using assms
proof (induction i arbitrary: w rule: int_ge_induct)
  case base
  then show ?case by (auto simp: ClearAll_loop_nonpos)
next
  case (step i)
  let ?b = "backup_name nm (i + 1)"
  define w1 where "w1 = (case files w ?b of None \<Rightarrow> w | Some c \<Rightarrow> w\<lparr>files := (files w)(?b := None)\<rparr>)"
  have r: "ClearAll_loop nm (i + 1) w = ClearAll_loop nm i w1"
  proof (cases "files w ?b")
    case None
    then show ?thesis
      using ClearAll_round_missing [of "i + 1" w nm] step.prems step.hyps by (simp add: w1_def)
  next
    case (Some c)
    then show ?thesis
      using ClearAll_round_removed [of "i + 1" w nm c] step.prems step.hyps by (simp add: w1_def)
  qed
  have f1: "fault w1 = fault w" by (simp add: w1_def split: option.splits)
  have w1: "files w1 q = (if q = ?b then None else files w q)" for q
    by (auto simp: w1_def split: option.splits)
  obtain w' where w': "ClearAll_loop nm i w1 = (None, w')" "fault w' = fault w1"
      "\<forall>q. files w' q = (if \<exists>j. 0 < j \<and> j \<le> i \<and> q = backup_name nm j then None else files w1 q)"
    using step.IH [of w1] step.prems f1 by auto
  have "files w' q = (if \<exists>j. 0 < j \<and> j \<le> i + 1 \<and> q = backup_name nm j then None else files w q)" for q
  proof (cases "\<exists>j. 0 < j \<and> j \<le> i \<and> q = backup_name nm j")
    case True
    then have "\<exists>j. 0 < j \<and> j \<le> i + 1 \<and> q = backup_name nm j" by force
    with True w'(3) show ?thesis by simp
  next
    case False
    show ?thesis
    proof (cases "q = ?b")
      case True
      then have "\<exists>j. 0 < j \<and> j \<le> i + 1 \<and> q = backup_name nm j" using step.hyps by force
      with True False w'(3) w1 show ?thesis by simp
    next
      case F: False
      have "\<not> (\<exists>j. 0 < j \<and> j \<le> i + 1 \<and> q = backup_name nm j)"
      proof
        assume "\<exists>j. 0 < j \<and> j \<le> i + 1 \<and> q = backup_name nm j"
        then obtain j where j: "0 < j" "j \<le> i + 1" "q = backup_name nm j" by blast
        then have "j = i + 1 \<or> j \<le> i" by linarith
        with j F False show False by auto
      qed
      then have n1: "(\<exists>j. 0 < j \<and> j \<le> i + 1 \<and> q = backup_name nm j) = False" by simp
      have a: "files w' q = files w1 q" using w'(3) [rule_format, of q] False by (simp only: if_False)
      have b: "files w1 q = files w q" using w1 [of q] F by (simp only: if_False)
      show ?thesis by (simp only: n1 if_False a b)
    qed
  qed
  with r w' f1 show ?case by simp
qed

lemma ClearAll_loop_failure:
  assumes "k \<le> i" "0 < k"
    and "files w (backup_name nm k) = Some c"
    and "fault w SysRemove (backup_name nm k) = Some e"
    and "\<forall>j. fault w SysStat (backup_name nm j) = None"
    and "\<forall>j. k < j \<and> j \<le> i \<longrightarrow> fault w SysRemove (backup_name nm j) = None"
  shows "\<exists>w'. ClearAll_loop nm i w = (Some e, w') \<and> fault w' = fault w \<and>
              (\<forall>q. files w' q = (if \<exists>j. k < j \<and> j \<le> i \<and> q = backup_name nm j then None else files w q))"
  using assms
proof (induction i arbitrary: w rule: int_ge_induct)
  case base
  have "ClearAll_loop nm k w = (Some e, w)"
    using ClearAll_round_refused [of k w nm c e] base by simp
  then show ?case by auto
next
  case (step i)
  let ?b = "backup_name nm (i + 1)"
  define w1 where "w1 = (case files w ?b of None \<Rightarrow> w | Some c \<Rightarrow> w\<lparr>files := (files w)(?b := None)\<rparr>)"
  have pos: "0 < i + 1" "k < i + 1" using step.hyps step.prems by auto
  have r: "ClearAll_loop nm (i + 1) w = ClearAll_loop nm i w1"
  proof (cases "files w ?b")
    case None
    then show ?thesis
      using ClearAll_round_missing [of "i + 1" w nm] step.prems pos by (simp add: w1_def)
  next
    case (Some c)
    then show ?thesis
      using ClearAll_round_removed [of "i + 1" w nm c] step.prems pos by (simp add: w1_def)
  qed
  have f1: "fault w1 = fault w" by (simp add: w1_def split: option.splits)
  have w1: "files w1 q = (if q = ?b then None else files w q)" for q
    by (auto simp: w1_def split: option.splits)
  have kb: "files w1 (backup_name nm k) = Some c"
    using w1 [of "backup_name nm k"] step.prems pos by simp
  obtain w' where w': "ClearAll_loop nm i w1 = (Some e, w')" "fault w' = fault w1"
      "\<forall>q. files w' q = (if \<exists>j. k < j \<and> j \<le> i \<and> q = backup_name nm j then None else files w1 q)"
    using step.IH [of w1] step.prems f1 kb by auto
  have "files w' q = (if \<exists>j. k < j \<and> j \<le> i + 1 \<and> q = backup_name nm j then None else files w q)" for q
  proof (cases "\<exists>j. k < j \<and> j \<le> i \<and> q = backup_name nm j")
    case True
    then have "\<exists>j. k < j \<and> j \<le> i + 1 \<and> q = backup_name nm j" by force
    with True w'(3) show ?thesis by simp
  next
    case False
    show ?thesis
    proof (cases "q = ?b")
      case True
      then have "\<exists>j. k < j \<and> j \<le> i + 1 \<and> q = backup_name nm j" using pos by force
      with True False w'(3) w1 show ?thesis by simp
    next
      case F: False
      have "\<not> (\<exists>j. k < j \<and> j \<le> i + 1 \<and> q = backup_name nm j)"
      proof
        assume "\<exists>j. k < j \<and> j \<le> i + 1 \<and> q = backup_name nm j"
        then obtain j where j: "k < j" "j \<le> i + 1" "q = backup_name nm j" by blast
        then have "j = i + 1 \<or> j \<le> i" by linarith
        with j F False show False by auto
      qed
      then have n1: "(\<exists>j. k < j \<and> j \<le> i + 1 \<and> q = backup_name nm j) = False" by simp
      have a: "files w' q = files w1 q" using w'(3) [rule_format, of q] False by (simp only: if_False)
      have b: "files w1 q = files w q" using w1 [of q] F by (simp only: if_False)
      show ?thesis by (simp only: n1 if_False a b)
    qed
  qed
  with r w' f1 show ?case by simp
qed

lemma backup_name_3: "backup_name nm 3 = nm @ ''.3''"
  by (simp add: backup_name_def Itoa_def digits_small)

lemma full_sink_eq:
  "full_sink =
     (\<lparr>name = ''app.log'', maxSize = 2, backups = 3, fileSize = 1, fileH = Some ''app.log'',
        logEventEmitter = Listener 0\<rparr>,
      env0\<lparr>files := [''app.log.3'' \<mapsto> ''b3'', ''app.log.2'' \<mapsto> ''b2'', ''app.log.1'' \<mapsto> ''b1'',
                      ''app.log'' \<mapsto> ''n''],
            events := [(0, ''b3''), (0, ''b2''), (0, ''b1''), (0, ''n'')]\<rparr>)"
  by (simp add: full_sink_def eval_defs backup_name_3 fun_upd_twist)

lemma openFile_trunc:
  assumes "fault w SysCreate (name l) = None"
  shows "openFile l w True = (None, l\<lparr>fileH := Some (name l)\<rparr>, w\<lparr>files := (files w)(name l \<mapsto> [])\<rparr>)"
  using assms by (simp add: openFile_def os_Create_def split: sum.splits)


lemma os_Rename_fault [simp]: "fault (snd (os_Rename w src dest)) = fault w"
  by (auto simp: os_Rename_def split: option.splits)

lemma os_Rename_other:
  "q \<noteq> src \<Longrightarrow> q \<noteq> dest \<Longrightarrow> files (snd (os_Rename w src dest)) q = files w q"
  by (auto simp: os_Rename_def split: option.splits)

lemma backupFiles_loop_active:
  "fault (backupFiles_loop nm i w) = fault w \<and> files (backupFiles_loop nm i w) nm = files w nm"
proof (cases "0 \<le> i")
  case False
  then show ?thesis by (simp add: backupFiles_loop_nonpos)
next
  case True
  then show ?thesis
  proof (induction i arbitrary: w rule: int_ge_induct)
    case base
    then show ?case by (simp add: backupFiles_loop_nonpos)
  next
    case (step i)
    let ?w1 = "(case os_Stat w (backup_name nm (i + 1)) of
                  Inr sz \<Rightarrow> snd (os_Rename w (backup_name nm (i + 1)) (backup_name nm (int64 (i + 1 + 1))))
                | Inl e \<Rightarrow> w)"
    have "fault ?w1 = fault w \<and> files ?w1 nm = files w nm"
      by (auto simp: os_Rename_other split: sum.splits)
    moreover have "fault (backupFiles_loop nm i ?w1) = fault ?w1 \<and>
                   files (backupFiles_loop nm i ?w1) nm = files ?w1 nm"
      by (rule step.IH)
    ultimately show ?case using step.hyps by (simp add: backupFiles_loop_pos)
  qed
qed


text \<open>The loop of \<^verbatim>\<open>backupFiles\<close> when no system call fails: every backup 1..i moves up
  by one; backup \<open>i + 1\<close> is replaced by backup \<open>i\<close> when that exists; backup 1 is left
  free; nothing else changes.\<close>

lemma backupFiles_loop_shift:
  assumes "0 \<le> i" "i + 1 < 2 ^ 63" "\<forall>s path. fault w s path = None"
  shows "(\<forall>j. 1 < j \<and> j \<le> i \<longrightarrow>
            files (backupFiles_loop nm i w) (backup_name nm j) = files w (backup_name nm (j - 1))) \<and>
         (1 \<le> i \<longrightarrow>
            files (backupFiles_loop nm i w) (backup_name nm (i + 1)) =
              (case files w (backup_name nm i) of
                 Some c \<Rightarrow> Some c | None \<Rightarrow> files w (backup_name nm (i + 1)))) \<and>
         (1 \<le> i \<longrightarrow> files (backupFiles_loop nm i w) (backup_name nm 1) = None) \<and>
         (\<forall>q. (\<forall>j. 0 < j \<and> j \<le> i + 1 \<longrightarrow> q \<noteq> backup_name nm j) \<longrightarrow>
            files (backupFiles_loop nm i w) q = files w q)"
  using assms
proof (induction i arbitrary: w rule: int_ge_induct)
  case base
  then show ?case by (auto simp: backupFiles_loop_nonpos)
next
  case (step i)
  let ?bn = "backup_name nm"
  have nf: "\<forall>s path. fault w s path = None" using step.prems by simp
  have i64: "int64 (i + 1 + 1) = i + 1 + 1"
    using step.hyps step.prems by (intro int64_id) (simp add: in_int64_def)
  define w1 where "w1 =
    (case files w (?bn (i + 1)) of
       None \<Rightarrow> w
     | Some c \<Rightarrow> w\<lparr>files := ((files w)(?bn (i + 1 + 1) \<mapsto> c))(?bn (i + 1) := None)\<rparr>)"
  have r: "backupFiles_loop nm (i + 1) w = backupFiles_loop nm i w1"
    using step.hyps nf i64
    by (simp add: backupFiles_loop_pos os_Stat_def os_Rename_def w1_def split: option.splits)
  have f1: "\<forall>s path. fault w1 s path = None" using nf by (simp add: w1_def split: option.splits)
  have w1_top: "files w1 (?bn (i + 1)) = None"
    by (simp add: w1_def split: option.splits)
  have w1_new: "files w1 (?bn (i + 1 + 1)) =
      (case files w (?bn (i + 1)) of Some c \<Rightarrow> Some c | None \<Rightarrow> files w (?bn (i + 1 + 1)))"
    by (simp add: w1_def split: option.splits)
  have w1_other: "files w1 q = files w q" if "q \<noteq> ?bn (i + 1)" "q \<noteq> ?bn (i + 1 + 1)" for q
    using that by (simp add: w1_def split: option.splits)
  have IH: "(\<forall>j. 1 < j \<and> j \<le> i \<longrightarrow>
            files (backupFiles_loop nm i w1) (?bn j) = files w1 (?bn (j - 1))) \<and>
         (1 \<le> i \<longrightarrow>
            files (backupFiles_loop nm i w1) (?bn (i + 1)) =
              (case files w1 (?bn i) of Some c \<Rightarrow> Some c | None \<Rightarrow> files w1 (?bn (i + 1)))) \<and>
         (1 \<le> i \<longrightarrow> files (backupFiles_loop nm i w1) (?bn 1) = None) \<and>
         (\<forall>q. (\<forall>j. 0 < j \<and> j \<le> i + 1 \<longrightarrow> q \<noteq> ?bn j) \<longrightarrow>
            files (backupFiles_loop nm i w1) q = files w1 q)"
    using step.IH [of w1] step.prems f1 by simp
  have c1: "files (backupFiles_loop nm i w1) (?bn j) = files w (?bn (j - 1))"
    if j: "1 < j \<and> j \<le> i + 1" for j
  proof (cases "j \<le> i")
    case True
    then have "files (backupFiles_loop nm i w1) (?bn j) = files w1 (?bn (j - 1))"
      using IH j by blast
    also have "\<dots> = files w (?bn (j - 1))"
      using True by (intro w1_other) simp_all
    finally show ?thesis .
  next
    case False
    then have ji: "j = i + 1" and i1: "1 \<le> i" using j by auto
    have "files (backupFiles_loop nm i w1) (?bn (i + 1)) =
        (case files w1 (?bn i) of Some c \<Rightarrow> Some c | None \<Rightarrow> files w1 (?bn (i + 1)))"
      using IH i1 by blast
    moreover have "files w1 (?bn i) = files w (?bn i)" by (intro w1_other) simp_all
    ultimately show ?thesis using w1_top ji by (simp split: option.splits)
  qed
  have c4: "files (backupFiles_loop nm i w1) q = files w1 q"
    if "\<forall>j. 0 < j \<and> j \<le> i + 1 \<longrightarrow> q \<noteq> ?bn j" for q
    using IH that by blast
  have c2: "files (backupFiles_loop nm i w1) (?bn (i + 1 + 1)) =
      (case files w (?bn (i + 1)) of Some c \<Rightarrow> Some c | None \<Rightarrow> files w (?bn (i + 1 + 1)))"
  proof -
    have "files (backupFiles_loop nm i w1) (?bn (i + 1 + 1)) = files w1 (?bn (i + 1 + 1))"
      by (intro c4) auto
    then show ?thesis using w1_new by simp
  qed
  have c3: "files (backupFiles_loop nm i w1) (?bn 1) = None"
  proof (cases "1 \<le> i")
    case True
    then show ?thesis using IH by blast
  next
    case False
    then have "i = 0" using step.hyps by simp
    then show ?thesis using w1_top by (simp add: backupFiles_loop_nonpos)
  qed
  have c5: "files (backupFiles_loop nm i w1) q = files w q"
    if q: "\<forall>j. 0 < j \<and> j \<le> i + 1 + 1 \<longrightarrow> q \<noteq> ?bn j" for q
  proof -
    have a: "q \<noteq> ?bn (i + 1)" "q \<noteq> ?bn (i + 1 + 1)" using q step.hyps by auto
    have "\<forall>j. 0 < j \<and> j \<le> i + 1 \<longrightarrow> q \<noteq> ?bn j" using q by auto
    then have "files (backupFiles_loop nm i w1) q = files w1 q" by (rule c4)
    then show ?thesis using w1_other [OF a] by simp
  qed
  show ?case unfolding r using c1 c2 c3 c5 by simp
qed


lemma File_Write_keeps_None:
  "files w q = None \<Longrightarrow> files (snd (File_Write h w p)) q = None"
  by (auto simp: File_Write_def split: option.splits)

lemma os_Rename_keeps_None:
  "files w q = None \<Longrightarrow> q \<noteq> dest \<Longrightarrow> files (snd (os_Rename w src dest)) q = None"
  by (auto simp: os_Rename_def split: option.splits)

lemma backupFiles_loop_keeps_None:
  assumes "files w q = None"
    and "\<forall>j. 0 < j \<and> j \<le> i \<longrightarrow> q \<noteq> backup_name nm (int64 (j + 1))"
  shows "files (backupFiles_loop nm i w) q = None"
proof (cases "0 \<le> i")
  case False
  then show ?thesis using assms by (simp add: backupFiles_loop_nonpos)
next
  case True
  then show ?thesis using assms
  proof (induction i arbitrary: w rule: int_ge_induct)
    case base
    then show ?case by (simp add: backupFiles_loop_nonpos)
  next
    case (step i)
    let ?w1 = "(case os_Stat w (backup_name nm (i + 1)) of
                  Inr sz \<Rightarrow> snd (os_Rename w (backup_name nm (i + 1)) (backup_name nm (int64 (i + 1 + 1))))
                | Inl e \<Rightarrow> w)"
    have "0 < i + 1 \<and> i + 1 \<le> i + 1" using step.hyps by simp
    then have "q \<noteq> backup_name nm (int64 (i + 1 + 1))" using step.prems(2) by blast
    then have "files ?w1 q = None"
      using step.prems(1) by (auto simp: os_Rename_keeps_None split: sum.splits)
    moreover have "\<forall>j. 0 < j \<and> j \<le> i \<longrightarrow> q \<noteq> backup_name nm (int64 (j + 1))"
      using step.prems(2) by simp
    ultimately have "files (backupFiles_loop nm i ?w1) q = None" by (rule step.IH)
    then show ?case using step.hyps by (simp add: backupFiles_loop_pos)
  qed
qed

lemma openFile_keeps_None:
  "files w q = None \<Longrightarrow> q \<noteq> name l \<Longrightarrow> files (snd (snd (openFile l w b))) q = None"
  by (auto simp: openFile_def os_Create_def os_OpenFile_def split: sum.splits option.splits prod.splits)

lemma Write_rotate_keeps_indices:
  assumes N: "1 \<le> backups l" "in_int64 (backups l)"
    and q: "j < 1 \<or> backups l < j" "files w (backup_name (name l) j) = None"
  shows "files (snd (Write_rotate l w)) (backup_name (name l) j) = None"
proof (cases "fileSize l \<ge> maxSize l")
  case False
  then show ?thesis using q by (simp add: Write_rotate_def)
next
  case True
  let ?nm = "name l" and ?q = "backup_name (name l) j"
  have s: "int64 (backups l - 1) = backups l - 1"
    using N by (intro int64_id) (simp add: in_int64_def)
  have d: "?q \<noteq> backup_name ?nm (int64 (i + 1))" if "0 < i \<and> i \<le> backups l - 1" for i
  proof -
    have "int64 (i + 1) = i + 1" using that N by (intro int64_id) (simp add: in_int64_def)
    then show ?thesis using that q(1) by auto
  qed
  have "files (backupFiles_loop ?nm (backups l - 1) w) ?q = None"
    using q(2) d by (intro backupFiles_loop_keeps_None) auto
  moreover have "?q \<noteq> ?nm @ ''.1''"
  proof -
    have "j \<noteq> 1" using q(1) N by linarith
    then have "?q \<noteq> backup_name ?nm 1" by simp
    then show ?thesis unfolding backup_name_1 .
  qed
  ultimately have "files (backupFiles (Close l) w) ?q = None"
    by (simp add: backupFiles_def Close_def s os_Rename_keeps_None Let_def)
  then have "files (snd (snd (openFile (Close l) (backupFiles (Close l) w) True))) ?q = None"
    by (intro openFile_keeps_None) (simp_all add: Close_def)
  then show ?thesis using True by (auto simp: Write_rotate_def Let_def split: prod.splits)
qed


lemmas clear_defs = ClearAllLogFile_def ClearAll_loop_pos ClearAll_loop_nonpos os_Remove_def
  backup_name_3 remove_denied_def


section \<open>Rotation on write\<close>

text \<open>
  C3 (scenario A). A file sink with threshold 10 and retention 2 is created where no file
  exists, so its active file starts empty. Writing \<open>0123456789\<close> rotates: the active file
  is empty again and backup \<open>.1\<close> holds the ten bytes. Writing \<open>abc\<close> leaves \<open>abc\<close> in
  the active file and does not rotate (backup \<open>.1\<close> is as before, there is no backup
  \<open>.2\<close>). Writing \<open>0123456789A\<close> rotates: backup \<open>.2\<close> holds \<open>0123456789\<close>, backup
  \<open>.1\<close> holds \<open>abc0123456789A\<close>, and the active file is empty.
\<close>

theorem Write_rotation_scenario:
  "(case NewFileLogger nm 10 2 em env0 of (l0, w0) \<Rightarrow>
    case Write l0 w0 ''0123456789'' of (r1, l1, w1) \<Rightarrow>
    case Write l1 w1 ''abc'' of (r2, l2, w2) \<Rightarrow>
    case Write l2 w2 ''0123456789A'' of (r3, l3, w3) \<Rightarrow>
      files w0 nm = Some [] \<and>
      files w1 nm = Some [] \<and> files w1 (nm @ ''.1'') = Some ''0123456789'' \<and>
      files w2 nm = Some ''abc'' \<and> files w2 (nm @ ''.1'') = Some ''0123456789'' \<and>
      files w2 (nm @ ''.2'') = None \<and>
      files w3 (nm @ ''.2'') = Some ''0123456789'' \<and>
      files w3 (nm @ ''.1'') = Some ''abc0123456789A'' \<and> files w3 nm = Some [])"
  by (simp add: eval_defs)

section \<open>Reading the log file\<close>

text \<open>
  C1. \<^verbatim>\<open>ReadLog\<close> with \<open>offset \<ge> 0\<close> and \<open>length > 0\<close> is claimed to return exactly
  \<open>min(length, L - offset)\<close> bytes from \<open>offset\<close> when \<open>offset < L\<close>. On the file
  \<open>hello\<close> (so \<open>L = 5\<close>), \<open>ReadLog(1, 4)\<close> does return \<open>ello\<close>, but
  \<open>ReadLog(1, MaxInt64)\<close> does not: the sum \<open>offset + length\<close> wraps around to a negative
  number, the length is not clamped, and \<^verbatim>\<open>make([]byte, length)\<close> panics. The lemma
  \<open>ReadLog_without_overflow\<close> is the claim for every pair whose sum does not wrap.
\<close>

theorem ReadLog_overflow_panic:
  "files (snd hello_sink) (name (fst hello_sink)) = Some ''hello'' \<and>
   ReadLog (fst hello_sink) (snd hello_sink) 1 4 = Inr (''ello'', None) \<and>
   int64 (1 + MaxInt64) = - (2 ^ 63) \<and>
   ReadLog (fst hello_sink) (snd hello_sink) 1 MaxInt64 = Inl MakeSliceLenOutOfRange"
  by (simp add: hello_sink_eq env0_def ReadLog_def MaxInt64_def os_Open_def File_Stat_def
      read_buffer_def makeslice_ok_def maxAlloc_def File_ReadAt_def int64_def)

text \<open>
  C2, as amended. \<^verbatim>\<open>ReadTailLog\<close> refuses a negative \<open>offset\<close> and a negative
  \<open>length\<close> with an error, whatever the file. On a readable file of length \<open>L\<close> and
  for \<open>length \<ge> 0\<close>: for \<open>offset \<ge> L\<close> the result is empty content, the offset \<open>L\<close>
  (the file's length, which is the input offset only when \<open>offset = L\<close>), reached-end
  true and no error; for \<open>0 \<le> offset < L\<close>, when the sum \<open>offset + length\<close> stays inside
  \<^verbatim>\<open>int64\<close>, the result is the \<open>min(length, L - offset)\<close> bytes from \<open>offset\<close>, the
  offset advanced by that many bytes, reached-end false and no error.
\<close>

theorem ReadTailLog_spec:
  "(offset < 0 \<longrightarrow>
      ReadTailLog l w offset len =
        Inr ('''', offset, False, Some (ErrorString ''offset should not be less than 0''))) \<and>
   (0 \<le> offset \<and> len < 0 \<longrightarrow>
      ReadTailLog l w offset len =
        Inr ('''', offset, False, Some (ErrorString ''length should be not be less than 0''))) \<and>
   (readable w (name l) c \<and> 0 \<le> len \<and> int (length c) \<le> offset \<longrightarrow>
      ReadTailLog l w offset len = Inr ('''', int (length c), True, None)) \<and>
   (readable w (name l) c \<and> 0 \<le> offset \<and> offset < int (length c) \<and> 0 \<le> len \<and>
    offset + len \<le> MaxInt64 \<longrightarrow>
      ReadTailLog l w offset len =
        Inr (take (nat (min len (int (length c) - offset))) (drop (nat offset) c),
             offset + min len (int (length c) - offset), False, None))"
proof (intro conjI impI)
  assume "offset < 0"
  then show "ReadTailLog l w offset len =
      Inr ('''', offset, False, Some (ErrorString ''offset should not be less than 0''))"
    by (simp add: ReadTailLog_def)
next
  assume "0 \<le> offset \<and> len < 0"
  then show "ReadTailLog l w offset len =
      Inr ('''', offset, False, Some (ErrorString ''length should be not be less than 0''))"
    by (simp add: ReadTailLog_def)
next
  assume a: "readable w (name l) c \<and> 0 \<le> len \<and> int (length c) \<le> offset"
  then have "os_Open w (name l) = Inr (name l)" "File_Stat w (name l) = Inr (int (length c))"
    by (auto simp: readable_def os_Open_def File_Stat_def)
  with a show "ReadTailLog l w offset len = Inr ('''', int (length c), True, None)"
    by (auto simp: ReadTailLog_def)
next
  assume "readable w (name l) c \<and> 0 \<le> offset \<and> offset < int (length c) \<and> 0 \<le> len \<and>
    offset + len \<le> MaxInt64"
  then show "ReadTailLog l w offset len =
        Inr (take (nat (min len (int (length c) - offset))) (drop (nat offset) c),
             offset + min len (int (length c) - offset), False, None)"
    using ReadTailLog_readable [of w l c offset len] by auto
qed

text \<open>The theorem at work on the file \<open>hello\<close>: a negative offset, a negative length,
  three bytes from offset 1, and a read at the end of the file.\<close>

theorem ReadTailLog_spec_witness:
  "ReadTailLog (fst hello_sink) (snd hello_sink) (- 1) 3 =
     Inr ('''', - 1, False, Some (ErrorString ''offset should not be less than 0'')) \<and>
   ReadTailLog (fst hello_sink) (snd hello_sink) 1 (- 3) =
     Inr ('''', 1, False, Some (ErrorString ''length should be not be less than 0'')) \<and>
   readable (snd hello_sink) (name (fst hello_sink)) ''hello'' \<and> (1 :: int) + 3 \<le> MaxInt64 \<and>
   ReadTailLog (fst hello_sink) (snd hello_sink) 1 3 = Inr (''ell'', 4, False, None) \<and>
   ReadTailLog (fst hello_sink) (snd hello_sink) 5 3 = Inr ('''', 5, True, None)"
  using ReadTailLog_spec [of "- 1" "fst hello_sink" "snd hello_sink" 3 "''hello''"]
    ReadTailLog_spec [of 1 "fst hello_sink" "snd hello_sink" "- 3" "''hello''"]
    ReadTailLog_spec [of 1 "fst hello_sink" "snd hello_sink" 3 "''hello''"]
    ReadTailLog_spec [of 5 "fst hello_sink" "snd hello_sink" 3 "''hello''"]
  by (simp add: hello_sink_eq env0_def readable_def MaxInt64_def maxAlloc_def)

text \<open>C2 as it was stated fails past the end of the file: on \<open>hello\<close>,
  \<open>ReadTailLog(7, 3)\<close> returns the offset 5, the file's length, not the offset 7 it was
  given.\<close>

theorem ReadTailLog_offset_counterexample:
  "ReadTailLog (fst hello_sink) (snd hello_sink) 7 3 = Inr ('''', 5, True, None) \<and>
   ReadTailLog (fst hello_sink) (snd hello_sink) 7 3 \<noteq> Inr ('''', 7, True, None)"
  by (simp add: hello_sink_eq env0_def ReadTailLog_def os_Open_def File_Stat_def)

section \<open>Writing and reading back\<close>

text \<open>
  C5. A file sink is created on a path where there is no file, or an empty one, and where
  no system call fails. A byte sequence shorter than the threshold (and no longer than a
  slice can be) is written to it. Then \<open>ReadLog(0, 0)\<close> returns exactly these bytes.
\<close>

theorem Write_ReadLog_roundtrip:
  assumes fresh: "files w nm = None \<or> files w nm = Some []"
    and nofault: "\<forall>s. fault w s nm = None"
    and thr: "in_int64 maxSz" "int (length p) < maxSz"
    and alloc: "int (length p) \<le> maxAlloc"
  shows "(case NewFileLogger nm maxSz bk em w of (l0, w0) \<Rightarrow>
          case Write l0 w0 p of (r, l1, w1) \<Rightarrow>
            r = (int (length p), None) \<and> ReadLog l1 w1 0 0 = Inr (p, None))"
proof -
  define l0 where "l0 = \<lparr>name = nm, maxSize = maxSz, backups = bk, fileSize = 0, fileH = Some nm,
                     logEventEmitter = em\<rparr>"
  define w0 where "w0 = w\<lparr>files := (files w)(nm \<mapsto> [])\<rparr>"
  have new: "NewFileLogger nm maxSz bk em w = (l0, w0)"
    using fresh nofault
    by (auto simp: NewFileLogger_def openFile_def os_Stat_def os_Create_def os_OpenFile_def
        l0_def w0_def fun_upd_idem)
  have n: "int64 (int (length p)) = int (length p)"
    using thr by (intro int64_id) (auto simp: in_int64_def)
  define l1 where "l1 = l0\<lparr>fileSize := int (length p)\<rparr>"
  define w1 where "w1 = emitLogEvent em p (w0\<lparr>files := (files w0)(nm \<mapsto> p)\<rparr>)"
  have wr: "Write l0 w0 p = ((int (length p), None), l1, w1)"
    using nofault thr n
    by (simp add: Write_def File_Write_def Write_rotate_def l0_def w0_def l1_def w1_def Let_def)
  have rd: "ReadLog l1 w1 0 0 = Inr (p, None)"
    using nofault alloc n
    by (simp add: ReadLog_def os_Open_def File_Stat_def read_buffer_def makeslice_ok_def
        File_ReadAt_def l1_def l0_def w1_def w0_def Let_def)
  show ?thesis using new wr rd by simp
qed

theorem Write_ReadLog_roundtrip_witness:
  "(files env0 ''app.log'' = None \<or> files env0 ''app.log'' = Some []) \<and>
   (\<forall>s. fault env0 s ''app.log'' = None) \<and> in_int64 100 \<and> int (length ''hello'') < 100 \<and>
   int (length ''hello'') \<le> maxAlloc \<and>
   (case NewFileLogger ''app.log'' 100 2 (Listener 0) env0 of (l0, w0) \<Rightarrow>
    case Write l0 w0 ''hello'' of (r, l1, w1) \<Rightarrow>
      r = (5, None) \<and> ReadLog l1 w1 0 0 = Inr (''hello'', None))"
  using Write_ReadLog_roundtrip [of env0 "''app.log''" 100 "''hello''" 2 "Listener 0"]
  by (simp add: env0_def in_int64_def maxAlloc_def)

section \<open>The dispatcher's write\<close>

text \<open>
  C6. For a dispatcher over a non-empty sequence of sinks, whatever the sinks' \<^verbatim>\<open>Write\<close>
  does: the pair (bytes written, error) that \<^verbatim>\<open>CompositeLogger.Write\<close> returns is the
  pair the first sink's \<^verbatim>\<open>Write\<close> returned, and the sinks and the environment are left
  as by writing to each sink in order. So no error of a later sink reaches the caller.
\<close>

theorem CompositeLogger_Write_primary:
  assumes "loggers \<noteq> []"
  shows "fst (CompositeLogger_Write wr loggers w p) = fst (wr (hd loggers) w p) \<and>
         snd (CompositeLogger_Write wr loggers w p) = write_each wr loggers w p"
proof -
  obtain l0 rest where ls: "loggers = l0 # rest" using assms by (cases loggers) auto
  obtain r l0' w1 where w0: "wr l0 w p = (r, l0', w1)" by (cases "wr l0 w p") auto
  have "CompositeLogger_Write_loop wr (Suc 0) rest r w1 p = (r, write_each wr rest w1 p)"
    by (rule Write_loop_later) simp
  then show ?thesis
    using ls w0 by (simp add: CompositeLogger_Write_def split: prod.splits)
qed

text \<open>Scenario D: the dispatcher built from \<open>app.log, /dev/stderr\<close> while the standard
  error stream is broken. The write returns the file sink's success; the write to the
  second sink, taken alone, fails; the file holds the bytes.\<close>

theorem CompositeLogger_Write_primary_witness:
  "fst fanout \<noteq> [] \<and>
   fst (CompositeLogger_Write (Logger_Write no_syslog) (fst fanout) (snd fanout) ''hi'') = (2, None) \<and>
   fst (Logger_Write no_syslog (fst fanout ! 1) (snd fanout) ''hi'') = (0, Some (Errno 32)) \<and>
   files (snd (snd (CompositeLogger_Write (Logger_Write no_syslog) (fst fanout) (snd fanout) ''hi'')))
     ''app.log'' = Some ''hi''"
  using CompositeLogger_Write_primary [of "fst fanout" "Logger_Write no_syslog" "snd fanout" "''hi''"]
  by (simp add: fanout_eq Logger_Write_def eval_defs broken_stderr_def StdLogger_Write_def
      Writer_Write_def)

section \<open>The standard-stream sink\<close>

text \<open>
  C8. \<^verbatim>\<open>StdLogger.Write\<close> returns what the write to its stream returns and leaves the
  streams as that write does. The observer's record is the one before the call when the
  forwarding write returned no error, and the one after a notification with the content
  when it returned an error: the record changes if and only if the forwarding write failed
  (and the observer is not the no-op one).
\<close>

theorem StdLogger_Write_spec:
  "fst (StdLogger_Write l w p) = fst (Writer_Write (writer l) w p) \<and>
   streams (snd (StdLogger_Write l w p)) = streams (snd (Writer_Write (writer l) w p)) \<and>
   events (snd (StdLogger_Write l w p)) =
     (case snd (fst (Writer_Write (writer l) w p)) of
        None \<Rightarrow> events w
      | Some err \<Rightarrow> events (emitLogEvent (stdEmitter l) p w)) \<and>
   (events (snd (StdLogger_Write l w p)) \<noteq> events w) =
     (snd (fst (Writer_Write (writer l) w p)) \<noteq> None \<and> stdEmitter l \<noteq> NullLogEventEmitter)"
  by (cases "stdEmitter l")
     (auto simp: StdLogger_Write_def Writer_Write_def split: option.splits prod.splits)

section \<open>The dispatcher has a primary sink\<close>

text \<open>
  C9. Whatever the destination string, \<^verbatim>\<open>NewLogger\<close> returns a non-empty sequence of
  sinks, so \<^verbatim>\<open>ReadLog\<close>, \<^verbatim>\<open>ReadTailLog\<close>, \<^verbatim>\<open>ClearCurLogFile\<close> and
  \<^verbatim>\<open>ClearAllLogFile\<close> of the dispatcher never index an empty slice. On the empty string
  the sequence is one discard sink, and the four methods return its errors.
\<close>

theorem NewLogger_primary_exists:
  "fst (NewLogger nsl prog logFile maxB bk props em w) \<noteq> [] \<and>
   CompositeLogger_ReadLog (fst (NewLogger nsl prog logFile maxB bk props em w)) w' off len
     \<noteq> Inl IndexOutOfRange \<and>
   CompositeLogger_ReadTailLog (fst (NewLogger nsl prog logFile maxB bk props em w)) w' off len
     \<noteq> Inl IndexOutOfRange \<and>
   CompositeLogger_ClearCurLogFile (fst (NewLogger nsl prog logFile maxB bk props em w)) w'
     \<noteq> Inl IndexOutOfRange \<and>
   CompositeLogger_ClearAllLogFile (fst (NewLogger nsl prog logFile maxB bk props em w)) w'
     \<noteq> Inl IndexOutOfRange \<and>
   NewLogger nsl prog '''' maxB bk props em w = ([NullSink (NewNullLogger em)], w) \<and>
   CompositeLogger_ReadLog (fst (NewLogger nsl prog '''' maxB bk props em w)) w' off len
     = Inr ('''', Some (ErrorString ''NO_FILE'')) \<and>
   CompositeLogger_ReadTailLog (fst (NewLogger nsl prog '''' maxB bk props em w)) w' off len
     = Inr ('''', 0, False, Some (ErrorString ''NO_FILE'')) \<and>
   CompositeLogger_ClearCurLogFile (fst (NewLogger nsl prog '''' maxB bk props em w)) w'
     = Inr (Some (ErrorString ''No log''), [NullSink (NewNullLogger em)], w') \<and>
   CompositeLogger_ClearAllLogFile (fst (NewLogger nsl prog '''' maxB bk props em w)) w'
     = Inr (Some (ErrorString ''NO_FILE''), [NullSink (NewNullLogger em)], w')"
proof -
  have ne: "fst (NewLogger nsl prog logFile maxB bk props em w) \<noteq> []"
    by (rule NewLogger_nonempty)
  have emp: "fst (NewLogger nsl prog [] maxB bk props em w) = [NullSink (NewNullLogger em)]"
    by (simp add: NewLogger_empty)
  show ?thesis
    unfolding emp
    using ne Composite_no_index_panic [OF ne]
    by (simp add: NewLogger_empty
      CompositeLogger_ReadLog_def CompositeLogger_ReadTailLog_def
      CompositeLogger_ClearCurLogFile_def CompositeLogger_ClearAllLogFile_def
      Logger_ReadLog_def Logger_ReadTailLog_def Logger_ClearCurLogFile_def Logger_ClearAllLogFile_def
      NullLogger_ReadLog_def NullLogger_ReadTailLog_def NullLogger_ClearCurLogFile_def
      NullLogger_ClearAllLogFile_def)
qed

section \<open>A write that succeeds and returns an error\<close>

text \<open>
  C10. The file is open and the write of all \<open>N\<close> bytes succeeds; the size counter,
  advanced by \<open>N\<close>, has reached the threshold; the corrective \<^verbatim>\<open>os.Stat\<close> fails with
  \<open>e\<close>. Then \<^verbatim>\<open>Write\<close> returns \<open>N\<close> together with \<open>e\<close>, the counter stays advanced, the
  observer has been notified with the content, and the bytes are in the file.
\<close>

theorem Write_stat_error:
  assumes opened: "fileH l = Some path"
    and wr_ok: "fault w SysWrite path = None"
    and thr: "maxSize l \<le> int64 (fileSize l + int (length p))"
    and st: "os_Stat w (name l) = Inl e"
  shows "(case Write l w p of (r, l', w') \<Rightarrow>
            r = (int (length p), Some e) \<and>
            l' = l\<lparr>fileSize := int64 (fileSize l + int (length p))\<rparr> \<and>
            events w' = events (emitLogEvent (logEventEmitter l) p w) \<and>
            files w' path = map_option (\<lambda>c. c @ p) (files w path))"
proof -
  obtain w1 where fw: "File_Write (fileH l) w p = ((int (length p), None), w1)"
    using opened wr_ok by (cases "files w path") (auto simp: File_Write_def)
  have w1: "events w1 = events w" "files w1 path = map_option (\<lambda>c. c @ p) (files w path)"
    using fw opened wr_ok by (auto simp: File_Write_def split: option.splits)
  have "os_Stat w1 (name l) = Inl e"
    using os_Stat_File_Write [OF st, of "fileH l" p] fw by simp
  then have "Write l w p = ((int (length p), Some e),
       l\<lparr>fileSize := int64 (fileSize l + int (length p))\<rparr>, emitLogEvent (logEventEmitter l) p w1)"
    using fw thr by (simp add: Write_def Let_def)
  then show ?thesis using w1 by (cases "logEventEmitter l") auto
qed

text \<open>On a sink with threshold 10 whose log file \<^verbatim>\<open>os.Stat\<close> refuses: writing ten bytes
  returns 10 and the error; the observer holds the content and the file holds the bytes.\<close>

theorem Write_stat_error_witness:
  "fileH (fst denied_sink) = Some ''app.log'' \<and>
   fault (snd denied_sink) SysWrite ''app.log'' = None \<and>
   maxSize (fst denied_sink) \<le> int64 (fileSize (fst denied_sink) + int (length ''0123456789'')) \<and>
   os_Stat (snd denied_sink) (name (fst denied_sink)) = Inl (Errno 13) \<and>
   (case Write (fst denied_sink) (snd denied_sink) ''0123456789'' of (r, l', w') \<Rightarrow>
      r = (10, Some (Errno 13)) \<and> fileSize l' = 10 \<and> events w' = [(0, ''0123456789'')] \<and>
      files w' ''app.log'' = Some ''0123456789'')"
  using Write_stat_error [of "fst denied_sink" "''app.log''" "snd denied_sink" "''0123456789''" "Errno 13"]
  by (simp add: denied_sink_eq stat_denied_def env0_def os_Stat_def int64_def split: prod.splits)

section \<open>Clearing all log files\<close>

text \<open>
  C7. \<^verbatim>\<open>os.Stat\<close> is taken to report the backups as they are (no fault on them).
  If no \<^verbatim>\<open>os.Remove\<close> of a backup 1..N fails and the active file can be created, then
  \<^verbatim>\<open>ClearAllLogFile\<close> returns no error, no backup 1..N exists afterwards and the active
  file is empty; this includes the case of no backup at all. If the removal of an
  existing backup \<open>k\<close> fails with \<open>e\<close> (and none above \<open>k\<close> fails), it returns \<open>e\<close>: the
  backups above \<open>k\<close> are gone and stay gone, the backups up to \<open>k\<close> and the active file
  are as before, and the sink is unchanged.
\<close>

theorem ClearAllLogFile_spec:
  assumes stat: "\<forall>j. fault w SysStat (backup_name (name l) j) = None"
  shows "((\<forall>j. 0 < j \<and> j \<le> backups l \<longrightarrow> fault w SysRemove (backup_name (name l) j) = None) \<and>
          fault w SysCreate (name l) = None \<longrightarrow>
            (case ClearAllLogFile l w of (err, l', w') \<Rightarrow>
               err = None \<and> files w' (name l) = Some [] \<and>
               (\<forall>j. 0 < j \<and> j \<le> backups l \<longrightarrow> files w' (backup_name (name l) j) = None))) \<and>
         (\<forall>k c e. 0 < k \<and> k \<le> backups l \<and> files w (backup_name (name l) k) = Some c \<and>
                  fault w SysRemove (backup_name (name l) k) = Some e \<and>
                  (\<forall>j. k < j \<and> j \<le> backups l \<longrightarrow> fault w SysRemove (backup_name (name l) j) = None) \<longrightarrow>
            (case ClearAllLogFile l w of (err, l', w') \<Rightarrow>
               err = Some e \<and> l' = l \<and> files w' (name l) = files w (name l) \<and>
               (\<forall>j. k < j \<and> j \<le> backups l \<longrightarrow> files w' (backup_name (name l) j) = None) \<and>
               (\<forall>j. j \<le> k \<longrightarrow> files w' (backup_name (name l) j) = files w (backup_name (name l) j))))"
proof (intro conjI impI allI)
  let ?nm = "name l" and ?N = "backups l"
  assume a: "(\<forall>j. 0 < j \<and> j \<le> ?N \<longrightarrow> fault w SysRemove (backup_name ?nm j) = None) \<and>
             fault w SysCreate ?nm = None"
  have "\<exists>w1. ClearAll_loop ?nm ?N w = (None, w1) \<and> fault w1 = fault w \<and>
          (\<forall>q. files w1 q = (if \<exists>j. 0 < j \<and> j \<le> ?N \<and> q = backup_name ?nm j then None else files w q))"
  proof (cases "0 \<le> ?N")
    case True
    then show ?thesis using ClearAll_loop_success [of ?N w ?nm] stat a by blast
  next
    case False
    then show ?thesis by (auto simp: ClearAll_loop_nonpos)
  qed
  then obtain w1 where w1: "ClearAll_loop ?nm ?N w = (None, w1)" "fault w1 = fault w"
    "\<forall>q. files w1 q = (if \<exists>j. 0 < j \<and> j \<le> ?N \<and> q = backup_name ?nm j then None else files w q)"
    by blast
  have o: "openFile l w1 True = (None, l\<lparr>fileH := Some ?nm\<rparr>, w1\<lparr>files := (files w1)(?nm \<mapsto> [])\<rparr>)"
    using a w1(2) by (intro openFile_trunc) simp
  have "ClearAllLogFile l w = (None, l\<lparr>fileH := Some ?nm\<rparr>, w1\<lparr>files := (files w1)(?nm \<mapsto> [])\<rparr>)"
    using w1(1) o by (simp add: ClearAllLogFile_def)
  moreover have "files w1 (backup_name ?nm j) = None" if "0 < j \<and> j \<le> ?N" for j
    using w1(3) [rule_format, of "backup_name ?nm j"] that by auto
  ultimately show "case ClearAllLogFile l w of (err, l', w') \<Rightarrow>
      err = None \<and> files w' ?nm = Some [] \<and>
      (\<forall>j. 0 < j \<and> j \<le> ?N \<longrightarrow> files w' (backup_name ?nm j) = None)"
    by simp
next
  fix k c e
  let ?nm = "name l" and ?N = "backups l"
  assume a: "0 < k \<and> k \<le> ?N \<and> files w (backup_name ?nm k) = Some c \<and>
       fault w SysRemove (backup_name ?nm k) = Some e \<and>
       (\<forall>j. k < j \<and> j \<le> ?N \<longrightarrow> fault w SysRemove (backup_name ?nm j) = None)"
  obtain w1 where w1: "ClearAll_loop ?nm ?N w = (Some e, w1)" "fault w1 = fault w"
    "\<forall>q. files w1 q = (if \<exists>j. k < j \<and> j \<le> ?N \<and> q = backup_name ?nm j then None else files w q)"
    using ClearAll_loop_failure [of k ?N w ?nm c e] stat a by blast
  have r: "ClearAllLogFile l w = (Some e, l, w1)"
    using w1(1) by (simp add: ClearAllLogFile_def)
  have n: "files w1 ?nm = files w ?nm"
    using w1(3) [rule_format, of ?nm] by simp
  have d: "files w1 (backup_name ?nm j) = None" if "k < j \<and> j \<le> ?N" for j
    using w1(3) [rule_format, of "backup_name ?nm j"] that by auto
  have u: "files w1 (backup_name ?nm j) = files w (backup_name ?nm j)" if "j \<le> k" for j
    using w1(3) [rule_format, of "backup_name ?nm j"] that by auto
  show "case ClearAllLogFile l w of (err, l', w') \<Rightarrow>
      err = Some e \<and> l' = l \<and> files w' ?nm = files w ?nm \<and>
      (\<forall>j. k < j \<and> j \<le> ?N \<longrightarrow> files w' (backup_name ?nm j) = None) \<and>
      (\<forall>j. j \<le> k \<longrightarrow> files w' (backup_name ?nm j) = files w (backup_name ?nm j))"
    using r n d u by simp
qed

text \<open>Scenario E on a sink with retention 3 whose three backups exist: all are removed,
  the active file is emptied, and a second call succeeds. When the removal of backup 2 is
  refused: backup 3 is gone, backups 2 and 1 and the active file are as before.\<close>

theorem ClearAllLogFile_spec_witness:
  "(\<forall>j. fault (snd full_sink) SysStat (backup_name (name (fst full_sink)) j) = None) \<and>
   (\<forall>j. fault (snd full_sink) SysRemove (backup_name (name (fst full_sink)) j) = None) \<and>
   fault (snd full_sink) SysCreate (name (fst full_sink)) = None \<and>
   backups (fst full_sink) = 3 \<and>
   files (snd full_sink) ''app.log.1'' = Some ''b1'' \<and>
   files (snd full_sink) ''app.log.2'' = Some ''b2'' \<and>
   files (snd full_sink) ''app.log.3'' = Some ''b3'' \<and>
   (case ClearAllLogFile (fst full_sink) (snd full_sink) of (err, l', w') \<Rightarrow>
      err = None \<and> files w' ''app.log'' = Some [] \<and> files w' ''app.log.1'' = None \<and>
      files w' ''app.log.2'' = None \<and> files w' ''app.log.3'' = None \<and>
      fst (ClearAllLogFile l' w') = None) \<and>
   fault (remove_denied (snd full_sink)) SysRemove (backup_name ''app.log'' 2) = Some (Errno 13) \<and>
   fault (remove_denied (snd full_sink)) SysRemove (backup_name ''app.log'' 3) = None \<and>
   (case ClearAllLogFile (fst full_sink) (remove_denied (snd full_sink)) of (err, l', w') \<Rightarrow>
      err = Some (Errno 13) \<and> files w' ''app.log.3'' = None \<and>
      files w' ''app.log.2'' = Some ''b2'' \<and> files w' ''app.log.1'' = Some ''b1'' \<and>
      files w' ''app.log'' = Some ''n'')"
  using ClearAllLogFile_spec [of "snd full_sink" "fst full_sink"]
    ClearAllLogFile_spec [of "remove_denied (snd full_sink)" "fst full_sink"]
  by (simp add: full_sink_eq eval_defs clear_defs)

section \<open>The numbering of the backups\<close>

text \<open>With a retention count of at least one, a write (rotating or not) leaves no backup
  file outside the indices 1..N when there was none before.\<close>

lemma Write_keeps_backup_indices:
  assumes N: "1 \<le> backups l" "in_int64 (backups l)"
    and q: "j < 1 \<or> backups l < j" "files w (backup_name (name l) j) = None"
  shows "files (snd (snd (Write l w p))) (backup_name (name l) j) = None"
proof -
  let ?q = "backup_name (name l) j"
  obtain n err w1 where fw: "File_Write (fileH l) w p = ((n, err), w1)"
    by (metis prod.exhaust)
  have w1: "files w1 ?q = None" using File_Write_keeps_None [OF q(2), of "fileH l" p] fw by simp
  show ?thesis
  proof (cases err)
    case (Some e)
    then show ?thesis using fw w1 by (simp add: Write_def)
  next
    case None
    let ?w2 = "emitLogEvent (logEventEmitter l) p w1"
    have w2: "files ?w2 ?q = None" using w1 by simp
    have rot: "files (snd (Write_rotate l' ?w2)) ?q = None"
      if "name l' = name l" "backups l' = backups l" for l'
      using Write_rotate_keeps_indices [of l' j ?w2] that N q(1) w2 by simp
    show ?thesis using fw None w2 rot
      by (auto simp: Write_def Let_def split: sum.splits prod.splits)
  qed
qed

text \<open>A write that rotates leaves in backup 1 what the active file held, the bytes just
  written included, and an empty active file.\<close>

lemma Write_rotation_newest:
  assumes opened: "fileH l = Some (name l)" "files w (name l) = Some c"
    and nofault: "\<forall>s path. fault w s path = None"
    and thr: "maxSize l \<le> int64 (fileSize l + int (length p))" "maxSize l \<le> int (length (c @ p))"
  shows "(case Write l w p of (r, l', w') \<Rightarrow>
            r = (int (length p), None) \<and> files w' (backup_name (name l) 1) = Some (c @ p) \<and>
            files w' (name l) = Some [])"
proof -
  let ?nm = "name l"
  define w1 where "w1 = w\<lparr>files := (files w)(?nm \<mapsto> c @ p)\<rparr>"
  have fw: "File_Write (fileH l) w p = ((int (length p), None), w1)"
    using opened nofault by (simp add: File_Write_def w1_def)
  let ?w2 = "emitLogEvent (logEventEmitter l) p w1"
  have w2: "files ?w2 ?nm = Some (c @ p)" "\<forall>s path. fault ?w2 s path = None"
    using nofault by (simp_all add: w1_def)
  define l1 where "l1 = l\<lparr>fileSize := int (length (c @ p))\<rparr>"
  have st: "os_Stat w1 ?nm = Inr (int (length (c @ p)))"
    using nofault by (simp add: os_Stat_def w1_def)
  define w3 where "w3 = backupFiles_loop ?nm (int64 (backups l - 1)) ?w2"
  have w3: "fault w3 = fault ?w2" "files w3 ?nm = Some (c @ p)"
    using backupFiles_loop_active [of ?nm "int64 (backups l - 1)" ?w2] w2 by (simp_all add: w3_def)
  define w4 where "w4 = w3\<lparr>files := ((files w3)(?nm @ ''.1'' \<mapsto> c @ p))(?nm := None)\<rparr>"
  have bf: "backupFiles (Close l1) ?w2 = w4"
    using w3 w2 by (simp add: backupFiles_def Close_def l1_def Let_def w3_def [symmetric]
        os_Rename_def w4_def)
  have "fault w4 SysCreate ?nm = None" using w3 w2 by (simp add: w4_def)
  then have op: "openFile (Close l1) w4 True =
      (None, (Close l1)\<lparr>fileH := Some ?nm\<rparr>, w4\<lparr>files := (files w4)(?nm \<mapsto> [])\<rparr>)"
    by (simp add: openFile_def os_Create_def Close_def l1_def split: sum.splits)
  have rot: "Write_rotate l1 ?w2 = ((Close l1)\<lparr>fileH := Some ?nm\<rparr>, w4\<lparr>files := (files w4)(?nm \<mapsto> [])\<rparr>)"
    using thr(2) bf op by (simp add: Write_rotate_def l1_def Let_def)
  have "Write l w p = ((int (length p), None), (Close l1)\<lparr>fileH := Some ?nm\<rparr>,
                       w4\<lparr>files := (files w4)(?nm \<mapsto> [])\<rparr>)"
    using fw thr(1) st rot by (simp add: Write_def Let_def l1_def)
  then show ?thesis by (simp add: w4_def backup_name_1)
qed


text \<open>A rotating write with retention N of at least 1, when no system call fails: backup
  1 holds what the active file held with the bytes just written; every backup \<open>j\<close> of
  2..N-1 holds what backup \<open>j - 1\<close> held; backup N holds what backup N-1 held when that
  existed, so what backup N held before is then in no file.\<close>

lemma Write_rotation_shift:
  assumes opened: "fileH l = Some (name l)" "files w (name l) = Some c"
    and nofault: "\<forall>s path. fault w s path = None"
    and thr: "maxSize l \<le> int64 (fileSize l + int (length p))" "maxSize l \<le> int (length (c @ p))"
    and N: "1 \<le> backups l" "in_int64 (backups l)"
  shows "(case Write l w p of (r, l', w') \<Rightarrow>
            r = (int (length p), None) \<and> files w' (name l) = Some [] \<and>
            files w' (backup_name (name l) 1) = Some (c @ p) \<and>
            (\<forall>j. 1 < j \<and> j < backups l \<longrightarrow>
               files w' (backup_name (name l) j) = files w (backup_name (name l) (j - 1))) \<and>
            (1 < backups l \<longrightarrow>
               files w' (backup_name (name l) (backups l)) =
                 (case files w (backup_name (name l) (backups l - 1)) of
                    Some b \<Rightarrow> Some b
                  | None \<Rightarrow> files w (backup_name (name l) (backups l)))))"
proof -
  let ?nm = "name l" and ?N = "backups l"
  let ?bn = "backup_name (name l)"
  define w1 where "w1 = w\<lparr>files := (files w)(?nm \<mapsto> c @ p)\<rparr>"
  have fw: "File_Write (fileH l) w p = ((int (length p), None), w1)"
    using opened nofault by (simp add: File_Write_def w1_def)
  let ?w2 = "emitLogEvent (logEventEmitter l) p w1"
  have w2: "files ?w2 ?nm = Some (c @ p)" "\<forall>s path. fault ?w2 s path = None"
    "files ?w2 (?bn j) = files w (?bn j)" for j
    using nofault by (simp_all add: w1_def)
  define l1 where "l1 = l\<lparr>fileSize := int (length (c @ p))\<rparr>"
  have st: "os_Stat w1 ?nm = Inr (int (length (c @ p)))"
    using nofault by (simp add: os_Stat_def w1_def)
  have s: "int64 (?N - 1) = ?N - 1" using N by (intro int64_id) (simp add: in_int64_def)
  define w3 where "w3 = backupFiles_loop ?nm (?N - 1) ?w2"
  note sh0 = backupFiles_loop_shift [of "?N - 1" ?w2 ?nm, folded w3_def]
  have pre: "0 \<le> ?N - 1" "?N - 1 + 1 < 2 ^ 63" using N by (simp_all add: in_int64_def)
  have sh_mid: "files w3 (?bn j) = files w (?bn (j - 1))" if "1 < j \<and> j < ?N" for j
    using sh0 [OF pre w2(2)] that w2(3) by auto
  have sh_top: "files w3 (?bn ?N) =
      (case files w (?bn (?N - 1)) of Some b \<Rightarrow> Some b | None \<Rightarrow> files w (?bn ?N))" if "1 < ?N"
    using sh0 [OF pre w2(2)] that w2(3) by (auto split: option.splits)
  have w3: "fault w3 = fault ?w2" "files w3 ?nm = Some (c @ p)"
    using backupFiles_loop_active [of ?nm "?N - 1" ?w2] w2 by (simp_all add: w3_def)
  define w4 where "w4 = w3\<lparr>files := ((files w3)(?nm @ ''.1'' \<mapsto> c @ p))(?nm := None)\<rparr>"
  have bf: "backupFiles (Close l1) ?w2 = w4"
    using w3 w2 by (simp add: backupFiles_def Close_def l1_def Let_def s w3_def [symmetric]
        os_Rename_def w4_def)
  have "fault w4 SysCreate ?nm = None" using w3 w2 by (simp add: w4_def)
  then have op: "openFile (Close l1) w4 True =
      (None, (Close l1)\<lparr>fileH := Some ?nm\<rparr>, w4\<lparr>files := (files w4)(?nm \<mapsto> [])\<rparr>)"
    by (simp add: openFile_def os_Create_def Close_def l1_def split: sum.splits)
  have rot: "Write_rotate l1 ?w2 = ((Close l1)\<lparr>fileH := Some ?nm\<rparr>, w4\<lparr>files := (files w4)(?nm \<mapsto> [])\<rparr>)"
    using thr(2) bf op by (simp add: Write_rotate_def l1_def Let_def)
  have wr: "Write l w p = ((int (length p), None), (Close l1)\<lparr>fileH := Some ?nm\<rparr>,
                       w4\<lparr>files := (files w4)(?nm \<mapsto> [])\<rparr>)"
    using fw thr(1) st rot by (simp add: Write_def Let_def l1_def)
  have up: "files (w4\<lparr>files := (files w4)(?nm \<mapsto> [])\<rparr>) (?bn j) = files w3 (?bn j)" if "j \<noteq> 1" for j
  proof -
    have "?bn j \<noteq> ?bn 1" using that by simp
    then have "?bn j \<noteq> ?nm @ ''.1''" unfolding backup_name_1 .
    then show ?thesis by (simp add: w4_def)
  qed
  have mid: "files (w4\<lparr>files := (files w4)(?nm \<mapsto> [])\<rparr>) (?bn j) = files w (?bn (j - 1))"
    if "1 < j \<and> j < ?N" for j
    using up [of j] sh_mid [of j] that by auto
  have top: "files (w4\<lparr>files := (files w4)(?nm \<mapsto> [])\<rparr>) (?bn ?N) =
      (case files w (?bn (?N - 1)) of Some b \<Rightarrow> Some b | None \<Rightarrow> files w (?bn ?N))"
    if "1 < ?N"
    using up [of ?N] sh_top that by auto
  show ?thesis unfolding wr using mid top by (simp add: w4_def backup_name_1)
qed

text \<open>
  C4. The numbering of the backups is claimed never to exceed the retention count N, and
  a rotation with retention 0 to leave no backup. On a sink with threshold 10 and
  retention 0, writing ten bytes rotates, and the rotation renames the active file to
  backup 1: afterwards a backup with index 1 exists and holds the ten bytes, though N is
  0. (For N of at least 1 the claim holds: \<open>Write_keeps_backup_indices\<close> and
  \<open>Write_rotation_shift\<close>.)
\<close>

theorem rotation_without_retention:
  "(case NewFileLogger nm 10 0 em env0 of (l0, w0) \<Rightarrow>
    case Write l0 w0 ''0123456789'' of (r, l1, w1) \<Rightarrow>
      backups l1 = 0 \<and> files w1 (backup_name nm 1) = Some ''0123456789'' \<and> files w1 nm = Some [])"
  by (simp add: eval_defs)

end
